theory Spec2Isabelle
  imports Main
begin

section \<open>Data model: the dtype descriptor as read by numpy/core/\_dtype.py\<close>

text \<open>
  The module only reads attributes of a descriptor. The scalar type object
  \<open>dtype.type\<close> is compared by identity with seven numpy classes, tested for
  being a subclass of \<open>np.number\<close> and \<open>np.flexible\<close>, and asked for its
  \<open>__module__\<close> and \<open>__name__\<close>.
\<close>

datatype scalar_class =
    Np_bool | Np_object | Np_string | Np_unicode | Np_void | Np_datetime64 | Np_timedelta64
  | Number_subclass    \<comment> \<open>any other class below \<open>np.number\<close> (\<open>np.int32\<close>, \<open>np.float64\<close>, ...)\<close>
  | Flexible_subclass  \<comment> \<open>any other class below \<open>np.flexible\<close> (\<open>np.record\<close>, ...)\<close>
  | Other_class

record scalar_type =
  cls :: scalar_class
  module :: string
  tname :: string

text \<open>
  \<open>fields\<close> is \<open>None\<close> for a descriptor without fields. Otherwise it holds, in the
  order of \<open>dtype.names\<close>, each name with the entry \<open>dtype.fields[name]\<close>: the field's
  descriptor, its offset and its title (\<open>None\<close> for a two-element entry).
  \<open>subdtype\<close> is \<open>None\<close> or the pair of base descriptor and shape.
\<close>

datatype dtype = DType
  (type: scalar_type)
  (kind: char)
  (byteorder: char)
  (itemsize: int)
  (isbuiltin: int)
  (isnative: bool)
  (isalignedstruct: bool)
  (str: string)
  (name: string)
  (fields: "(string \<times> dtype \<times> int \<times> string option) list option")
  (subdtype: "(dtype \<times> int list) option")

type_synonym field_entry = "dtype \<times> int \<times> string option"

datatype platform = LittleEndian | BigEndian

datatype error =
    UnknownKind char          \<comment> \<open>RuntimeError: internal dtype repr error, unknown kind\<close>
  | UnrecognizedTypeNumber    \<comment> \<open>RuntimeError: Internal error: NumPy dtype unrecognized type number\<close>
  | NoneTypeError             \<comment> \<open>TypeError: iterating or unpacking \<open>None\<close>\<close>

definition issubclass_number :: "scalar_type \<Rightarrow> bool" where
  "issubclass_number t = (cls t = Number_subclass \<or> cls t = Np_timedelta64)"

definition issubclass_flexible :: "scalar_type \<Rightarrow> bool" where
  "issubclass_flexible t =
     (cls t = Np_string \<or> cls t = Np_unicode \<or> cls t = Np_void \<or> cls t = Flexible_subclass)"

section \<open>Python string formatting used by the module\<close>

definition sq :: "string \<Rightarrow> string" where
  \<comment> \<open>the single quotes of a format string such as \<open>"'%s%c%d'"\<close>\<close>
  "sq s = CHR 0x27 # s @ [CHR 0x27]"

fun digits :: "nat \<Rightarrow> string" where
  "digits n =
     (if n < 10 then [char_of (48 + n)]
      else digits (n div 10) @ [char_of (48 + n mod 10)])"

definition fmt_d :: "int \<Rightarrow> string" where
  \<comment> \<open>\<open>"%d" % i\<close> for an integer\<close>
  "fmt_d i = (if i < 0 then CHR ''-'' # digits (nat (- i)) else digits (nat i))"

definition true_div4_fmt_d :: "int \<Rightarrow> string" where
  \<comment> \<open>\<open>"%d" % (i / 4)\<close>: true division, then \<open>%d\<close> truncates the float towards zero\<close>
  "true_div4_fmt_d i = (if i < 0 then fmt_d (- ((- i) div 4)) else fmt_d (i div 4))"

fun join :: "string \<Rightarrow> string list \<Rightarrow> string" where
  "join sep [] = []"
| "join sep [x] = x"
| "join sep (x # y # ys) = x @ sep @ join sep (y # ys)"

definition str_tuple :: "int list \<Rightarrow> string" where
  \<comment> \<open>\<open>"{}".format(shape)\<close> for a tuple of integers\<close>
  "str_tuple shape =
     (case shape of
        [] \<Rightarrow> ''()''
      | [x] \<Rightarrow> ''('' @ fmt_d x @ '',)''
      | _ \<Rightarrow> ''('' @ join '', '' (map fmt_d shape) @ '')'')"

definition hex2 :: "char \<Rightarrow> string" where
  "hex2 c = (let n = (of_char c :: nat) in
     [''0123456789abcdef'' ! (n div 16), ''0123456789abcdef'' ! (n mod 16)])"

definition repr_char :: "char \<Rightarrow> char \<Rightarrow> string" where
  "repr_char quote c =
     (if c = quote \<or> c = CHR 0x5C then [CHR 0x5C, c]
      else if c = CHR 0x09 then [CHR 0x5C, CHR ''t'']
      else if c = CHR 0x0A then [CHR 0x5C, CHR ''n'']
      else if c = CHR 0x0D then [CHR 0x5C, CHR ''r'']
      else if (of_char c :: nat) < 32 \<or> (of_char c :: nat) \<ge> 127
        then [CHR 0x5C, CHR ''x''] @ hex2 c
      else [c])"

definition repr :: "string \<Rightarrow> string" where
  \<comment> \<open>\<open>repr\<close> of a byte string: single quotes unless the string has a single and no double quote\<close>
  "repr s =
     (let quote = (if CHR 0x27 \<in> set s \<and> CHR 0x22 \<notin> set s then CHR 0x22 else CHR 0x27)
      in quote # concat (map (repr_char quote) s) @ [quote])"

definition repr_opt :: "string option \<Rightarrow> string" where
  \<comment> \<open>\<open>repr\<close> of a title, which may be \<open>None\<close>\<close>
  "repr_opt t = (case t of None \<Rightarrow> ''None'' | Some s \<Rightarrow> repr s)"

fun rfind_from :: "string \<Rightarrow> char \<Rightarrow> int \<Rightarrow> int \<Rightarrow> int" where
  "rfind_from [] c i found = found"
| "rfind_from (x # xs) c i found = rfind_from xs c (i + 1) (if x = c then i else found)"

definition rfind :: "string \<Rightarrow> char \<Rightarrow> int" where
  \<comment> \<open>\<open>s.rfind(c)\<close>: the highest index of \<open>c\<close>, or -1\<close>
  "rfind s c = rfind_from s c 0 (- 1)"

definition slice_from :: "string \<Rightarrow> int \<Rightarrow> string" where
  \<comment> \<open>\<open>s[i:]\<close>, a negative \<open>i\<close> counting from the end\<close>
  "slice_from s i =
     (if i < 0 then drop (nat (int (length s) + i)) s else drop (nat i) s)"

section \<open>The functions of numpy/core/\_dtype.py\<close>

definition unpack_field :: "field_entry \<Rightarrow> dtype \<times> int \<times> string option" where
  "unpack_field f = (case f of (dtype, offset, title) \<Rightarrow> (dtype, offset, title))"

definition isunsized :: "dtype \<Rightarrow> bool" where
  "isunsized d = (itemsize d = 0)"

subsection \<open>Byte order\<close>

text \<open>
  Modelled from the spec: the descriptor method \<open>newbyteorder\<close> is not part of this
  module. \<open>np.dtype(int)\<close> is native; swapping the native order gives the order
  opposite to the platform's, and swapping that gives the platform's own order
  character. A descriptor without byte order (\<open>|\<close>) is left alone.
\<close>

definition native_char :: "platform \<Rightarrow> char" where
  "native_char p = (case p of LittleEndian \<Rightarrow> CHR ''<'' | BigEndian \<Rightarrow> CHR ''>'')"

definition opposite_char :: "platform \<Rightarrow> char" where
  "opposite_char p = (case p of LittleEndian \<Rightarrow> CHR ''>'' | BigEndian \<Rightarrow> CHR ''<'')"

definition newbyteorder_s :: "platform \<Rightarrow> char \<Rightarrow> char" where
  "newbyteorder_s p c =
     (if c = CHR ''|'' then c
      else if c = opposite_char p then native_char p
      else opposite_char p)"

definition dtype_int_byteorder :: char where
  "dtype_int_byteorder = CHR ''=''"

definition byte_order_str :: "platform \<Rightarrow> dtype \<Rightarrow> string" where
  "byte_order_str p d =
     (let swapped = newbyteorder_s p dtype_int_byteorder;
          native = newbyteorder_s p swapped;
          byteorder' = byteorder d
      in if byteorder' = CHR ''='' then [native]
         else if byteorder' = CHR ''s'' then [swapped]
         else if byteorder' = CHR ''|'' then []
         else [byteorder'])"

definition datetime_metadata_str :: "dtype \<Rightarrow> string" where
  "datetime_metadata_str d = slice_from (name d) (rfind (name d) CHR ''['')"

subsection \<open>Packed layouts\<close>

fun is_packed_loop :: "(string \<times> field_entry) list \<Rightarrow> int \<Rightarrow> int \<Rightarrow> bool" where
  "is_packed_loop [] total_offset isz =
     (if total_offset \<noteq> isz then False else True)"
| "is_packed_loop ((nm, f) # rest) total_offset isz =
     (case unpack_field f of (fld_dtype, fld_offset, title) \<Rightarrow>
        if fld_offset \<noteq> total_offset then False
        else is_packed_loop rest (total_offset + itemsize fld_dtype) isz)"

definition is_packed :: "dtype \<Rightarrow> error + bool" where
  "is_packed d =
     (case fields d of
        None \<Rightarrow> Inl NoneTypeError
      | Some flds \<Rightarrow> Inr (is_packed_loop flds 0 (itemsize d)))"

subsection \<open>The construction representation\<close>

fun mapM :: "('a \<Rightarrow> error + 'b) \<Rightarrow> 'a list \<Rightarrow> error + 'b list" where
  "mapM f [] = Inr []"
| "mapM f (x # xs) =
     (case f x of
        Inl e \<Rightarrow> Inl e
      | Inr y \<Rightarrow> (case mapM f xs of Inl e \<Rightarrow> Inl e | Inr ys \<Rightarrow> Inr (y # ys)))"

fun unpack_loop ::
  "(string \<times> field_entry) list \<Rightarrow> dtype list \<times> int list \<times> string option list
     \<Rightarrow> dtype list \<times> int list \<times> string option list" where
  "unpack_loop [] acc = acc"
| "unpack_loop ((nm, f) # rest) (fld_dtypes, offsets, titles) =
     (case unpack_field f of (fld_dtype, offset, title) \<Rightarrow>
        unpack_loop rest (fld_dtypes @ [fld_dtype], offsets @ [offset], titles @ [title]))"

definition kindstrs :: "char \<rightharpoonup> string" where
  "kindstrs = map_of
     [(CHR ''u'', ''uint''), (CHR ''i'', ''int''), (CHR ''f'', ''float''), (CHR ''c'', ''complex'')]"

lemma mapM_cong [fundef_cong]:
  "xs = ys \<Longrightarrow> (\<And>x. x \<in> set ys \<Longrightarrow> f x = g x) \<Longrightarrow> mapM f xs = mapM g ys"
  by (induction ys arbitrary: xs) (auto split: sum.splits)

lemma size_field_lt:
  assumes "fields d = Some flds" and "(n, fd, off, t) \<in> set flds"
  shows "size fd < size d"
proof -
  have "size fd \<le> size_prod (\<lambda>x. 0) (size_prod size (\<lambda>x. 0)) (n, fd, off, t)"
    by simp
  with assms(2)
  have "size fd \<le> size_list (size_prod (\<lambda>x. 0) (size_prod size (\<lambda>x. 0))) flds"
    by (rule size_list_estimation')
  with assms(1) show ?thesis by (cases d) simp
qed

lemma size_base_lt: "subdtype d = Some (base, shape) \<Longrightarrow> size base < size d"
  by (cases d) simp

lemma size_field_base_lt:
  assumes "fields d = Some flds" and "(n, fd, off, t) \<in> set flds"
    and "subdtype fd = Some (base, shape)"
  shows "size base < size d"
  using size_field_lt [OF assms(1,2)] size_base_lt [OF assms(3)] by simp

lemma unpack_loop_dtypes:
  "fst (unpack_loop flds acc) = fst acc @ map (\<lambda>(nm, fd, off, t). fd) flds"
  by (induction flds acc rule: unpack_loop.induct) (auto simp: unpack_field_def)

lemma size_unpacked_lt:
  assumes "fields d = Some flds"
    and "(fld_dtypes, rest) = unpack_loop flds ([], [], [])"
    and "x \<in> set fld_dtypes"
  shows "size x < size d"
proof -
  have "fld_dtypes = map (\<lambda>(nm, fd, off, t). fd) flds"
    using unpack_loop_dtypes [of flds "([], [], [])"] assms(2) [symmetric] by simp
  with assms(3) obtain n off t where "(n, x, off, t) \<in> set flds"
    by auto
  with assms(1) show ?thesis by (rule size_field_lt)
qed

function construction_repr :: "platform \<Rightarrow> dtype \<Rightarrow> bool \<Rightarrow> bool \<Rightarrow> error + string"
  and struct_str :: "platform \<Rightarrow> dtype \<Rightarrow> bool \<Rightarrow> error + string"
  and struct_list_str :: "platform \<Rightarrow> dtype \<Rightarrow> error + string"
  and struct_dict_str :: "platform \<Rightarrow> dtype \<Rightarrow> bool \<Rightarrow> error + string"
  and subarray_str :: "platform \<Rightarrow> dtype \<Rightarrow> error + string"
where
  "construction_repr p d include_align short =
     (if fields d \<noteq> None then struct_str p d include_align
      else if subdtype d \<noteq> None then subarray_str p d
      else
        let byteorder' = byte_order_str p d in
        if cls (type d) = Np_bool then
          (if short then Inr (sq ''?'') else Inr (sq ''bool''))
        else if cls (type d) = Np_object then Inr (sq ''O'')
        else if cls (type d) = Np_string then
          (if isunsized d then Inr (sq ''S'')
           else Inr (sq (''S'' @ fmt_d (itemsize d))))
        else if cls (type d) = Np_unicode then
          (if isunsized d then Inr (sq (byteorder' @ ''U''))
           else Inr (sq (byteorder' @ ''U'' @ true_div4_fmt_d (itemsize d))))
        else if cls (type d) = Np_void then
          (if isunsized d then Inr (sq ''V'')
           else Inr (sq (''V'' @ fmt_d (itemsize d))))
        else if cls (type d) = Np_datetime64 then
          Inr (sq (byteorder' @ ''M8'' @ datetime_metadata_str d))
        else if cls (type d) = Np_timedelta64 then
          Inr (sq (byteorder' @ ''m8'' @ datetime_metadata_str d))
        else if issubclass_number (type d) then
          (if short \<or> byteorder d \<notin> {CHR ''='', CHR ''|''} then
             Inr (sq (byteorder' @ [kind d] @ fmt_d (itemsize d)))
           else
             (case kindstrs (kind d) of
                None \<Rightarrow> Inl (UnknownKind (kind d))
              | Some kindstr \<Rightarrow> Inr (sq (kindstr @ fmt_d (8 * itemsize d)))))
        else if isbuiltin d = 2 then Inr (tname (type d))
        else Inl UnrecognizedTypeNumber)"
| "struct_str p d include_align =
     (case (if include_align \<and> isalignedstruct d then Inr False else is_packed d) of
        Inl e \<Rightarrow> Inl e
      | Inr use_list \<Rightarrow>
          (case (if use_list then struct_list_str p d
                 else struct_dict_str p d include_align) of
             Inl e \<Rightarrow> Inl e
           | Inr sub \<Rightarrow>
               if cls (type d) \<noteq> Np_void
               then Inr (''('' @ module (type d) @ ''.'' @ tname (type d) @ '', '' @ sub @ '')'')
               else Inr sub))"
| "struct_list_str p d =
     (case fields d of
        None \<Rightarrow> Inl NoneTypeError
      | Some flds \<Rightarrow>
          (case mapM (\<lambda>(nm, f).
                  case unpack_field f of (fld_dtype, fld_offset, title) \<Rightarrow>
                    let item = ''('';
                        item = (case title of
                                  Some t \<Rightarrow> item @ ''('' @ repr t @ '', '' @ repr nm @ ''), ''
                                | None \<Rightarrow> item @ repr nm @ '', '')
                    in (case subdtype fld_dtype of
                          Some (base, shape) \<Rightarrow>
                            (case construction_repr p base False True of
                               Inl e \<Rightarrow> Inl e
                             | Inr s \<Rightarrow> Inr (item @ s @ '', '' @ str_tuple shape @ '')''))
                        | None \<Rightarrow>
                            (case construction_repr p fld_dtype False True of
                               Inl e \<Rightarrow> Inl e
                             | Inr s \<Rightarrow> Inr (item @ s @ '')''))))
                flds of
             Inl e \<Rightarrow> Inl e
           | Inr items \<Rightarrow> Inr (''['' @ join '', '' items @ '']'')))"
| "struct_dict_str p d includealignedflag =
     (case fields d of
        None \<Rightarrow> Inl NoneTypeError
      | Some flds \<Rightarrow>
          (case unpack_loop flds ([], [], []) of (fld_dtypes, offsets, titles) \<Rightarrow>
             (case mapM (\<lambda>fld_dtype. construction_repr p fld_dtype False True) fld_dtypes of
                Inl e \<Rightarrow> Inl e
              | Inr formats \<Rightarrow>
                  let ret = ''{'names':['';
                      ret = ret @ join '','' (map repr (map fst flds));
                      ret = ret @ ''], 'formats':['';
                      ret = ret @ join '','' formats;
                      ret = ret @ ''], 'offsets':['';
                      ret = ret @ join '','' (map fmt_d offsets);
                      ret = (if \<exists>title \<in> set titles. title \<noteq> None
                             then ret @ ''], 'titles':['' @ join '','' (map repr_opt titles)
                             else ret);
                      ret = ret @ ''], 'itemsize':'' @ fmt_d (itemsize d);
                      ret = (if includealignedflag \<and> isalignedstruct d
                             then ret @ '', 'aligned':True}''
                             else ret @ ''}'')
                  in Inr ret)))"
| "subarray_str p d =
     (case subdtype d of
        None \<Rightarrow> Inl NoneTypeError
      | Some (base, shape) \<Rightarrow>
          (case construction_repr p base False True of
             Inl e \<Rightarrow> Inl e
           | Inr s \<Rightarrow> Inr (''('' @ s @ '', '' @ str_tuple shape @ '')'')))"
  by pat_completeness auto
termination
  apply (relation "inv_image (less_than <*lex*> less_than)
     (\<lambda>x. case x of
        Inl (Inl (p, d, a, b)) \<Rightarrow> (size d, 2::nat)
      | Inl (Inr (p, d, a)) \<Rightarrow> (size d, 1)
      | Inr (Inl (p, d)) \<Rightarrow> (size d, 0)
      | Inr (Inr (Inl (p, d, a))) \<Rightarrow> (size d, 0)
      | Inr (Inr (Inr (p, d))) \<Rightarrow> (size d, 0))")
      apply simp_all
     apply (auto simp: unpack_field_def
      intro: size_field_lt size_field_base_lt size_base_lt size_unpacked_lt)
  done

declare construction_repr.simps [simp del] struct_str.simps [simp del]
  struct_list_str.simps [simp del] struct_dict_str.simps [simp del]
  subarray_str.simps [simp del]

subsection \<open>The entry points \<open>__str__\<close> and \<open>__repr__\<close>\<close>

definition struct_repr :: "platform \<Rightarrow> dtype \<Rightarrow> error + string" where
  "struct_repr p d =
     (case struct_str p d False of
        Inl e \<Rightarrow> Inl e
      | Inr sub \<Rightarrow>
          let s = ''dtype('';
              s = s @ sub;
              s = (if isalignedstruct d then s @ '', align=True'' else s);
              s = s @ '')''
          in Inr s)"

definition dtype_str :: "platform \<Rightarrow> dtype \<Rightarrow> error + string" where
  "dtype_str p d =
     (if fields d \<noteq> None then struct_str p d True
      else if subdtype d \<noteq> None then subarray_str p d
      else if issubclass_flexible (type d) \<or> \<not> isnative d then Inr (str d)
      else Inr (name d))"

definition dtype_repr :: "platform \<Rightarrow> dtype \<Rightarrow> error + string" where
  "dtype_repr p d =
     (if fields d \<noteq> None then struct_repr p d
      else (case construction_repr p d True False of
              Inl e \<Rightarrow> Inl e
            | Inr s \<Rightarrow> Inr (''dtype('' @ s @ '')'')))"

section \<open>Example descriptors\<close>

definition np_void :: scalar_type where
  "np_void = \<lparr>cls = Np_void, module = ''numpy'', tname = ''void''\<rparr>"

definition np_record :: scalar_type where
  "np_record = \<lparr>cls = Flexible_subclass, module = ''numpy'', tname = ''record''\<rparr>"

definition int32 :: dtype where
  "int32 = DType \<lparr>cls = Number_subclass, module = ''numpy'', tname = ''int32''\<rparr>
     CHR ''i'' CHR ''='' 4 1 True False ''<i4'' ''int32'' None None"

definition float64 :: dtype where
  "float64 = DType \<lparr>cls = Number_subclass, module = ''numpy'', tname = ''float64''\<rparr>
     CHR ''f'' CHR ''='' 8 1 True False ''<f8'' ''float64'' None None"

definition struct_of ::
  "scalar_type \<Rightarrow> (string \<times> field_entry) list \<Rightarrow> int \<Rightarrow> bool \<Rightarrow> dtype" where
  \<comment> \<open>a structured descriptor with the given type object, fields, itemsize and aligned flag\<close>
  "struct_of t flds isz aligned =
     DType t CHR ''V'' CHR ''|'' isz 0 True aligned (''|V'' @ fmt_d isz) (''void'' @ fmt_d (8 * isz))
       (Some flds) None"

definition three_int32 :: "(string \<times> field_entry) list" where
  "three_int32 =
     [(''a'', int32, 0, None), (''b'', int32, 4, None), (''c'', int32, 8, None)]"

definition bool8 :: dtype where
  "bool8 = DType \<lparr>cls = Np_bool, module = ''numpy'', tname = ''bool_''\<rparr>
     CHR ''b'' CHR ''|'' 1 1 True False ''|b1'' ''bool'' None None"

definition float64_big :: dtype where
  \<comment> \<open>an 8-byte float stored big-endian, as seen on a little-endian platform\<close>
  "float64_big = DType \<lparr>cls = Number_subclass, module = ''numpy'', tname = ''float64''\<rparr>
     CHR ''f'' CHR ''>'' 8 1 False False ''>f8'' ''float64'' None None"

definition int32_marked_swapped :: dtype where
  \<comment> \<open>a descriptor still carrying the marker \<open>s\<close>\<close>
  "int32_marked_swapped = DType \<lparr>cls = Number_subclass, module = ''numpy'', tname = ''int32''\<rparr>
     CHR ''i'' CHR ''s'' 4 1 False False ''>i4'' ''int32'' None None"

definition titled_record :: dtype where
  "titled_record = struct_of np_record [(''f1'', float64, 0, Some ''t1'')] 8 False"

definition titled_pair :: dtype where
  "titled_pair = struct_of np_void
     [(''f1'', float64, 0, Some ''t1''), (''b'', int32, 8, None)] 16 True"

definition void8 :: dtype where
  \<comment> \<open>\<open>np.dtype('V8')\<close>\<close>
  "void8 = DType np_void CHR ''V'' CHR ''|'' 8 1 True False ''|V8'' ''void64'' None None"

definition record_void :: "int \<Rightarrow> dtype" where
  \<comment> \<open>\<open>np.dtype((np.record, 'V8'))\<close>: raw void of 8 bytes whose type is \<open>np.record\<close>, a
      subclass of \<open>np.void\<close>; the argument is the value of \<open>isbuiltin\<close>\<close>
  "record_void b = DType np_record CHR ''V'' CHR ''|'' 8 b True False ''|V8'' ''record64'' None None"

definition empty_title :: dtype where
  \<comment> \<open>\<open>np.dtype([(('', 'a'), 'i4')])\<close>: one field whose title is the empty string\<close>
  "empty_title = struct_of np_void [(''a'', int32, 0, Some [])] 4 False"

definition inner_struct :: "bool \<Rightarrow> dtype" where
  "inner_struct aligned = struct_of np_void [(''x'', int32, 0, None)] 4 aligned"

definition outer_struct :: "bool \<Rightarrow> dtype" where
  \<comment> \<open>a structured descriptor whose only field is a structured descriptor, aligned or not\<close>
  "outer_struct aligned = struct_of np_void [(''a'', inner_struct aligned, 0, None)] 4 False"

section \<open>Properties in the words of the specification\<close>

definition field_offsets :: "(string \<times> field_entry) list \<Rightarrow> int list" where
  "field_offsets flds = map (\<lambda>(nm, fld_dtype, offset, title). offset) flds"

definition field_sizes :: "(string \<times> field_entry) list \<Rightarrow> int list" where
  "field_sizes flds = map (\<lambda>(nm, fld_dtype, offset, title). itemsize fld_dtype) flds"

definition field_dtypes :: "(string \<times> field_entry) list \<Rightarrow> dtype list" where
  "field_dtypes flds = map (\<lambda>(nm, fld_dtype, offset, title). fld_dtype) flds"

definition field_titles :: "(string \<times> field_entry) list \<Rightarrow> string option list" where
  "field_titles flds = map (\<lambda>(nm, fld_dtype, offset, title). title) flds"

section \<open>The tests under which the builder raises\<close>

text \<open>
  \<open>falls_through\<close> is the condition under which a scalar
  descriptor reaches the last \<open>else\<close> of \<open>_construction_repr\<close>: it is what the code
  tests (the identity of \<open>dtype.type\<close>, \<open>np.issubdtype\<close> and \<open>isbuiltin\<close>) and does
  not read \<open>dtype.kind\<close>. A descriptor is well formed when no descriptor inside it has
  both fields and a subarray.
\<close>

definition falls_through :: "dtype \<Rightarrow> bool" where
  "falls_through d =
     (cls (type d) \<notin> {Np_bool, Np_object, Np_string, Np_unicode, Np_void,
                        Np_datetime64, Np_timedelta64}
      \<and> \<not> issubclass_number (type d) \<and> isbuiltin d \<noteq> 2)"

definition unknown_numeric_kind :: "dtype \<Rightarrow> bool \<Rightarrow> bool" where
  "unknown_numeric_kind d short =
     (fields d = None \<and> subdtype d = None \<and> cls (type d) = Number_subclass
      \<and> \<not> short \<and> byteorder d \<in> {CHR ''='', CHR ''|''}
      \<and> kind d \<notin> {CHR ''u'', CHR ''i'', CHR ''f'', CHR ''c''})"

function reaches_fall_through :: "dtype \<Rightarrow> bool" where
  "reaches_fall_through d =
     (case fields d of
        Some flds \<Rightarrow> list_ex (\<lambda>(nm, fld_dtype, offset, title). reaches_fall_through fld_dtype) flds
      | None \<Rightarrow>
          (case subdtype d of
             Some (base, shape) \<Rightarrow> reaches_fall_through base
           | None \<Rightarrow> falls_through d))"
  by pat_completeness auto
termination
  apply (relation "measure size")
    apply (auto intro: size_field_lt size_base_lt)
  done

function wellformed :: "dtype \<Rightarrow> bool" where
  "wellformed d =
     (case fields d of
        Some flds \<Rightarrow>
          subdtype d = None
          \<and> list_all (\<lambda>(nm, fld_dtype, offset, title). wellformed fld_dtype) flds
      | None \<Rightarrow>
          (case subdtype d of
             Some (base, shape) \<Rightarrow> wellformed base
           | None \<Rightarrow> True))"
  by pat_completeness auto
termination
  apply (relation "measure size")
    apply (auto intro: size_field_lt size_base_lt)
  done

declare reaches_fall_through.simps [simp del] wellformed.simps [simp del]

definition list_item :: "platform \<Rightarrow> string \<times> field_entry \<Rightarrow> error + string" where
  \<comment> \<open>the body of the loop of \<open>_struct_list_str\<close>, for one field\<close>
  "list_item p = (\<lambda>(nm, f).
     case unpack_field f of (fld_dtype, fld_offset, title) \<Rightarrow>
       let item = ''('';
           item = (case title of
                     Some t \<Rightarrow> item @ ''('' @ repr t @ '', '' @ repr nm @ ''), ''
                   | None \<Rightarrow> item @ repr nm @ '', '')
       in (case subdtype fld_dtype of
             Some (base, shape) \<Rightarrow>
               (case construction_repr p base False True of
                  Inl e \<Rightarrow> Inl e
                | Inr s \<Rightarrow> Inr (item @ s @ '', '' @ str_tuple shape @ '')''))
           | None \<Rightarrow>
               (case construction_repr p fld_dtype False True of
                  Inl e \<Rightarrow> Inl e
                | Inr s \<Rightarrow> Inr (item @ s @ '')''))))"

section \<open>The module's lists as objects on a heap\<close>

text \<open>
  The module assigns to no attribute of a descriptor and to no global name; what it
  creates and changes are lists: \<open>items\<close> in \<open>_struct_list_str\<close>, and \<open>fld_dtypes\<close>,
  \<open>offsets\<close> and \<open>titles\<close> in \<open>_struct_dict_str\<close>, each made empty, appended to and
  read again later, with calls of \<open>_construction_repr\<close> in between. Here the functions
  are written a second time with these lists as objects on a heap: a list is made at
  the next free address, \<open>append\<close> changes the list at an address, and a read takes what
  the heap holds at that moment. Descriptors, strings and integers are values.
\<close>

datatype heap = Heap
  (dtype_lists: "nat \<Rightarrow> dtype list")
  (int_lists: "nat \<Rightarrow> int list")
  (title_lists: "nat \<Rightarrow> string option list")
  (str_lists: "nat \<Rightarrow> string list")
  (next_addr: nat)

definition new_dtype_list :: "heap \<Rightarrow> nat \<times> heap" where
  "new_dtype_list h =
     (next_addr h,
      Heap ((dtype_lists h)(next_addr h := [])) (int_lists h) (title_lists h) (str_lists h)
        (Suc (next_addr h)))"

definition new_int_list :: "heap \<Rightarrow> nat \<times> heap" where
  "new_int_list h =
     (next_addr h,
      Heap (dtype_lists h) ((int_lists h)(next_addr h := [])) (title_lists h) (str_lists h)
        (Suc (next_addr h)))"

definition new_title_list :: "heap \<Rightarrow> nat \<times> heap" where
  "new_title_list h =
     (next_addr h,
      Heap (dtype_lists h) (int_lists h) ((title_lists h)(next_addr h := [])) (str_lists h)
        (Suc (next_addr h)))"

definition new_str_list :: "heap \<Rightarrow> nat \<times> heap" where
  "new_str_list h =
     (next_addr h,
      Heap (dtype_lists h) (int_lists h) (title_lists h) ((str_lists h)(next_addr h := []))
        (Suc (next_addr h)))"

definition append_dtype :: "nat \<Rightarrow> dtype \<Rightarrow> heap \<Rightarrow> heap" where
  "append_dtype a v h =
     Heap ((dtype_lists h)(a := dtype_lists h a @ [v])) (int_lists h) (title_lists h)
       (str_lists h) (next_addr h)"

definition append_int :: "nat \<Rightarrow> int \<Rightarrow> heap \<Rightarrow> heap" where
  "append_int a v h =
     Heap (dtype_lists h) ((int_lists h)(a := int_lists h a @ [v])) (title_lists h)
       (str_lists h) (next_addr h)"

definition append_title :: "nat \<Rightarrow> string option \<Rightarrow> heap \<Rightarrow> heap" where
  "append_title a v h =
     Heap (dtype_lists h) (int_lists h) ((title_lists h)(a := title_lists h a @ [v]))
       (str_lists h) (next_addr h)"

definition append_str :: "nat \<Rightarrow> string \<Rightarrow> heap \<Rightarrow> heap" where
  "append_str a v h =
     Heap (dtype_lists h) (int_lists h) (title_lists h)
       ((str_lists h)(a := str_lists h a @ [v])) (next_addr h)"

definition empty_heap :: heap where
  "empty_heap = Heap (\<lambda>a. []) (\<lambda>a. []) (\<lambda>a. []) (\<lambda>a. []) 0"

text \<open>
  A call returns \<open>None\<close> when the fuel is used up, \<open>Some (Inl e)\<close> when it raises and
  \<open>Some (Inr v)\<close> when it returns, with the heap it leaves. The recursive call of
  \<open>_construction_repr\<close> is the argument \<open>rec_call\<close>; \<open>construction_repr_h n\<close> allows
  \<open>n\<close> nested calls. The scalar cases make no list and are those of
  \<open>construction_repr\<close>. The generator over \<open>fld_dtypes\<close> runs over the list as the
  heap holds it when the loop starts.
\<close>

type_synonym 'a outcome = "(error + 'a) option \<times> heap"

fun unpack_loop_h ::
  "(string \<times> field_entry) list \<Rightarrow> nat \<Rightarrow> nat \<Rightarrow> nat \<Rightarrow> heap \<Rightarrow> heap" where
  "unpack_loop_h [] fld_dtypes offsets titles h = h"
| "unpack_loop_h ((nm, f) # rest) fld_dtypes offsets titles h =
     (case unpack_field f of (fld_dtype, offset, title) \<Rightarrow>
        unpack_loop_h rest fld_dtypes offsets titles
          (append_title titles title
            (append_int offsets offset
              (append_dtype fld_dtypes fld_dtype h))))"

fun mapM_h ::
  "('a \<Rightarrow> heap \<Rightarrow> 'b outcome) \<Rightarrow> 'a list \<Rightarrow> heap \<Rightarrow> 'b list outcome" where
  "mapM_h f [] h = (Some (Inr []), h)"
| "mapM_h f (x # xs) h =
     (case f x h of
        (None, h') \<Rightarrow> (None, h')
      | (Some (Inl e), h') \<Rightarrow> (Some (Inl e), h')
      | (Some (Inr y), h') \<Rightarrow>
          (case mapM_h f xs h' of
             (None, h'') \<Rightarrow> (None, h'')
           | (Some (Inl e), h'') \<Rightarrow> (Some (Inl e), h'')
           | (Some (Inr ys), h'') \<Rightarrow> (Some (Inr (y # ys)), h'')))"

fun for_h ::
  "('a \<Rightarrow> heap \<Rightarrow> unit outcome) \<Rightarrow> 'a list \<Rightarrow> heap \<Rightarrow> unit outcome" where
  "for_h body [] h = (Some (Inr ()), h)"
| "for_h body (x # xs) h =
     (case body x h of
        (None, h') \<Rightarrow> (None, h')
      | (Some (Inl e), h') \<Rightarrow> (Some (Inl e), h')
      | (Some (Inr u), h') \<Rightarrow> for_h body xs h')"


type_synonym builder = "platform \<Rightarrow> dtype \<Rightarrow> bool \<Rightarrow> bool \<Rightarrow> heap \<Rightarrow> string outcome"

definition subarray_str_h :: "builder \<Rightarrow> platform \<Rightarrow> dtype \<Rightarrow> heap \<Rightarrow> string outcome" where
  "subarray_str_h rec_call p d h =
     (case subdtype d of
        None \<Rightarrow> (Some (Inl NoneTypeError), h)
      | Some (base, shape) \<Rightarrow>
          (case rec_call p base False True h of
             (None, h') \<Rightarrow> (None, h')
           | (Some (Inl e), h') \<Rightarrow> (Some (Inl e), h')
           | (Some (Inr s), h') \<Rightarrow>
               (Some (Inr (''('' @ s @ '', '' @ str_tuple shape @ '')'')), h')))"

definition list_item_h ::
  "builder \<Rightarrow> platform \<Rightarrow> nat \<Rightarrow> string \<times> field_entry \<Rightarrow> heap \<Rightarrow> unit outcome" where
  \<comment> \<open>the body of the loop of \<open>_struct_list_str\<close>; \<open>items\<close> is the address of the list\<close>
  "list_item_h rec_call p items = (\<lambda>(nm, f) h.
     case unpack_field f of (fld_dtype, fld_offset, title) \<Rightarrow>
       let item = ''('';
           item = (case title of
                     Some t \<Rightarrow> item @ ''('' @ repr t @ '', '' @ repr nm @ ''), ''
                   | None \<Rightarrow> item @ repr nm @ '', '')
       in (case subdtype fld_dtype of
             Some (base, shape) \<Rightarrow>
               (case rec_call p base False True h of
                  (None, h') \<Rightarrow> (None, h')
                | (Some (Inl e), h') \<Rightarrow> (Some (Inl e), h')
                | (Some (Inr s), h') \<Rightarrow>
                    (Some (Inr ()),
                     append_str items (item @ s @ '', '' @ str_tuple shape @ '')'') h'))
           | None \<Rightarrow>
               (case rec_call p fld_dtype False True h of
                  (None, h') \<Rightarrow> (None, h')
                | (Some (Inl e), h') \<Rightarrow> (Some (Inl e), h')
                | (Some (Inr s), h') \<Rightarrow>
                    (Some (Inr ()), append_str items (item @ s @ '')'') h'))))"

definition struct_list_str_h :: "builder \<Rightarrow> platform \<Rightarrow> dtype \<Rightarrow> heap \<Rightarrow> string outcome" where
  "struct_list_str_h rec_call p d h =
     (case new_str_list h of (items, h) \<Rightarrow>
        (case fields d of
           None \<Rightarrow> (Some (Inl NoneTypeError), h)
         | Some flds \<Rightarrow>
             (case for_h (list_item_h rec_call p items) flds h of
                (None, h') \<Rightarrow> (None, h')
              | (Some (Inl e), h') \<Rightarrow> (Some (Inl e), h')
              | (Some (Inr u), h') \<Rightarrow>
                  (Some (Inr (''['' @ join '', '' (str_lists h' items) @ '']'')), h'))))"

definition struct_dict_str_h ::
  "builder \<Rightarrow> platform \<Rightarrow> dtype \<Rightarrow> bool \<Rightarrow> heap \<Rightarrow> string outcome" where
  "struct_dict_str_h rec_call p d includealignedflag h =
     (case new_dtype_list h of (fld_dtypes, h) \<Rightarrow>
      case new_int_list h of (offsets, h) \<Rightarrow>
      case new_title_list h of (titles, h) \<Rightarrow>
        (case fields d of
           None \<Rightarrow> (Some (Inl NoneTypeError), h)
         | Some flds \<Rightarrow>
             let h = unpack_loop_h flds fld_dtypes offsets titles h;
                 ret = ''{'names':['';
                 ret = ret @ join '','' (map repr (map fst flds));
                 ret = ret @ ''], 'formats':[''
             in (case mapM_h (\<lambda>fld_dtype. rec_call p fld_dtype False True)
                        (dtype_lists h fld_dtypes) h of
                   (None, h') \<Rightarrow> (None, h')
                 | (Some (Inl e), h') \<Rightarrow> (Some (Inl e), h')
                 | (Some (Inr formats), h') \<Rightarrow>
                     let ret = ret @ join '','' formats;
                         ret = ret @ ''], 'offsets':['';
                         ret = ret @ join '','' (map fmt_d (int_lists h' offsets));
                         ret = (if \<exists>title \<in> set (title_lists h' titles). title \<noteq> None
                                then ret @ ''], 'titles':[''
                                     @ join '','' (map repr_opt (title_lists h' titles))
                                else ret);
                         ret = ret @ ''], 'itemsize':'' @ fmt_d (itemsize d);
                         ret = (if includealignedflag \<and> isalignedstruct d
                                then ret @ '', 'aligned':True}''
                                else ret @ ''}'')
                     in (Some (Inr ret), h'))))"

definition struct_str_h :: "builder \<Rightarrow> platform \<Rightarrow> dtype \<Rightarrow> bool \<Rightarrow> heap \<Rightarrow> string outcome" where
  "struct_str_h rec_call p d include_align h =
     (case (if include_align \<and> isalignedstruct d then Inr False else is_packed d) of
        Inl e \<Rightarrow> (Some (Inl e), h)
      | Inr use_list \<Rightarrow>
          (case (if use_list then struct_list_str_h rec_call p d h
                 else struct_dict_str_h rec_call p d include_align h) of
             (None, h') \<Rightarrow> (None, h')
           | (Some (Inl e), h') \<Rightarrow> (Some (Inl e), h')
           | (Some (Inr sub), h') \<Rightarrow>
               if cls (type d) \<noteq> Np_void
               then (Some (Inr (''('' @ module (type d) @ ''.'' @ tname (type d) @ '', ''
                                @ sub @ '')'')), h')
               else (Some (Inr sub), h')))"

definition construction_repr_step :: "builder \<Rightarrow> builder" where
  "construction_repr_step rec_call p d include_align short h =
     (if fields d \<noteq> None then struct_str_h rec_call p d include_align h
      else if subdtype d \<noteq> None then subarray_str_h rec_call p d h
      else (Some (construction_repr p d include_align short), h))"

primrec construction_repr_h :: "nat \<Rightarrow> builder" where
  "construction_repr_h 0 = (\<lambda>p d include_align short h. (None, h))"
| "construction_repr_h (Suc n) = construction_repr_step (construction_repr_h n)"

definition struct_repr_h :: "nat \<Rightarrow> platform \<Rightarrow> dtype \<Rightarrow> heap \<Rightarrow> string outcome" where
  "struct_repr_h n p d h =
     (case struct_str_h (construction_repr_h n) p d False h of
        (None, h') \<Rightarrow> (None, h')
      | (Some (Inl e), h') \<Rightarrow> (Some (Inl e), h')
      | (Some (Inr sub), h') \<Rightarrow>
          let s = ''dtype('';
              s = s @ sub;
              s = (if isalignedstruct d then s @ '', align=True'' else s);
              s = s @ '')''
          in (Some (Inr s), h'))"

definition dtype_repr_h :: "nat \<Rightarrow> platform \<Rightarrow> dtype \<Rightarrow> heap \<Rightarrow> string outcome" where
  "dtype_repr_h n p d h =
     (if fields d \<noteq> None then struct_repr_h n p d h
      else (case construction_repr_h n p d True False h of
              (None, h') \<Rightarrow> (None, h')
            | (Some (Inl e), h') \<Rightarrow> (Some (Inl e), h')
            | (Some (Inr s), h') \<Rightarrow> (Some (Inr (''dtype('' @ s @ '')'')), h')))"

text \<open>
  What a call may do to the heap: \<open>frame k h h'\<close> says that \<open>h'\<close> has every address of
  \<open>h\<close> and the same lists at the addresses below \<open>k\<close>; a computation refines a value
  when, from every heap, it returns that value and leaves all lists that existed alone.
\<close>

definition frame :: "nat \<Rightarrow> heap \<Rightarrow> heap \<Rightarrow> bool" where
  \<comment> \<open>nothing is freed and the lists at addresses below \<open>k\<close> are as before\<close>
  "frame k h h' =
     (next_addr h \<le> next_addr h'
      \<and> (\<forall>b<k. dtype_lists h' b = dtype_lists h b \<and> int_lists h' b = int_lists h b
             \<and> title_lists h' b = title_lists h b \<and> str_lists h' b = str_lists h b))"

definition refines :: "(heap \<Rightarrow> 'a outcome) \<Rightarrow> error + 'a \<Rightarrow> bool" where
  \<comment> \<open>from every heap the computation returns \<open>v\<close> and leaves the existing lists alone\<close>
  "refines m v = (\<forall>h. \<exists>h'. m h = (Some v, h') \<and> frame (next_addr h) h h')"

definition loop_frame :: "nat \<Rightarrow> heap \<Rightarrow> heap \<Rightarrow> bool" where
  \<comment> \<open>as \<open>frame\<close>, but the list of strings at address \<open>a\<close> may have changed\<close>
  "loop_frame a h h' =
     (next_addr h \<le> next_addr h'
      \<and> (\<forall>b<next_addr h. dtype_lists h' b = dtype_lists h b \<and> int_lists h' b = int_lists h b
             \<and> title_lists h' b = title_lists h b
             \<and> (b \<noteq> a \<longrightarrow> str_lists h' b = str_lists h b)))"

definition item_ok :: "builder \<Rightarrow> platform \<Rightarrow> dtype \<Rightarrow> bool" where
  \<comment> \<open>the call that the list form makes for a field of descriptor \<open>fd\<close> refines the pure one\<close>
  "item_ok rec_call p fd =
     (case subdtype fd of
        Some (base, shape) \<Rightarrow>
          refines (rec_call p base False True) (construction_repr p base False True)
      | None \<Rightarrow> refines (rec_call p fd False True) (construction_repr p fd False True))"

section \<open>Byte-order normalizer\<close>

text \<open>
  C7. \<open>_byte_order_str\<close> always returns a string (it has no error result): for the
  marker \<open>=\<close> the order character of the platform, for \<open>s\<close> the opposite one, for
  \<open>|\<close> the empty string, and any other character unchanged.
\<close>

theorem byte_order_str_total:
  "(byteorder d = CHR ''='' \<longrightarrow>
      byte_order_str p d = (case p of LittleEndian \<Rightarrow> ''<'' | BigEndian \<Rightarrow> ''>''))
   \<and> (byteorder d = CHR ''s'' \<longrightarrow>
      byte_order_str p d = (case p of LittleEndian \<Rightarrow> ''>'' | BigEndian \<Rightarrow> ''<''))
   \<and> (byteorder d = CHR ''|'' \<longrightarrow> byte_order_str p d = [])
   \<and> (byteorder d \<notin> {CHR ''='', CHR ''s'', CHR ''|''} \<longrightarrow>
      byte_order_str p d = [byteorder d])"
  by (cases p) (simp_all add: byte_order_str_def newbyteorder_s_def dtype_int_byteorder_def
      native_char_def opposite_char_def Let_def)

theorem byte_order_str_total_witness:
  "byte_order_str LittleEndian float64 = ''<''
   \<and> byte_order_str BigEndian int32_marked_swapped = ''<''
   \<and> byte_order_str LittleEndian bool8 = []
   \<and> byte_order_str LittleEndian float64_big = ''>''"
  using byte_order_str_total [of float64 LittleEndian]
    byte_order_str_total [of int32_marked_swapped BigEndian]
    byte_order_str_total [of bool8 LittleEndian]
    byte_order_str_total [of float64_big LittleEndian]
  by (simp add: float64_def int32_marked_swapped_def bool8_def float64_big_def)

section \<open>Layout-packedness analyzer\<close>

lemma is_packed_loop_iff:
  "is_packed_loop flds acc isz \<longleftrightarrow>
     (\<forall>i<length flds. field_offsets flds ! i = acc + sum_list (take i (field_sizes flds)))
     \<and> acc + sum_list (field_sizes flds) = isz"
proof (induction flds arbitrary: acc)
  case Nil
  then show ?case by (auto simp: field_offsets_def field_sizes_def)
next
  case (Cons x xs)
  obtain nm fd off t where x: "x = (nm, fd, off, t)" by (cases x) auto
  show ?case
    unfolding x
    by (simp add: unpack_field_def Cons.IH All_less_Suc2 field_offsets_def field_sizes_def
        add.assoc eq_commute [of off acc])
qed

lemma three_int32_layout:
  "field_offsets three_int32 = [0, 4, 8]" "field_sizes three_int32 = [4, 4, 4]"
  by (simp_all add: field_offsets_def field_sizes_def three_int32_def int32_def)

text \<open>
  C3. For a structured descriptor, \<open>_is_packed\<close> returns true exactly when every
  field, in declaration order, sits at the sum of the itemsizes of the fields before
  it (so the first at 0) and the sum over all fields is the descriptor's itemsize.
  Three 4-byte fields at offsets 0, 4, 8 are packed with itemsize 12 and not packed
  with itemsize 16.
\<close>

theorem is_packed_iff:
  "(fields d = Some flds \<longrightarrow>
      is_packed d = Inr ((\<forall>i<length flds.
          field_offsets flds ! i = sum_list (take i (field_sizes flds)))
        \<and> sum_list (field_sizes flds) = itemsize d))
   \<and> field_offsets three_int32 = [0, 4, 8] \<and> field_sizes three_int32 = [4, 4, 4]
   \<and> is_packed (struct_of np_void three_int32 12 False) = Inr True
   \<and> is_packed (struct_of np_void three_int32 16 False) = Inr False"
proof -
  have "is_packed (struct_of np_void three_int32 12 False) = Inr True"
    by (simp add: is_packed_def struct_of_def three_int32_def int32_def unpack_field_def)
  moreover have "is_packed (struct_of np_void three_int32 16 False) = Inr False"
    by (simp add: is_packed_def struct_of_def three_int32_def int32_def unpack_field_def)
  ultimately show ?thesis
    by (simp add: is_packed_def is_packed_loop_iff three_int32_layout)
qed

theorem is_packed_iff_witness:
  "fields (struct_of np_void three_int32 16 False) = Some three_int32
   \<and> sum_list (field_sizes three_int32) \<noteq> itemsize (struct_of np_void three_int32 16 False)
   \<and> is_packed (struct_of np_void three_int32 16 False) = Inr False"
  using is_packed_iff [of "struct_of np_void three_int32 16 False" three_int32]
  by (simp add: struct_of_def three_int32_layout)

section \<open>Numeric descriptors\<close>

text \<open>
  C5. A numeric descriptor (no fields, no subarray, a scalar type below \<open>np.number\<close>,
  kind \<open>u\<close>, \<open>i\<close>, \<open>f\<close> or \<open>c\<close>) renders as quoted order, kind character and
  itemsize when the short form is asked for or its byte order is neither \<open>=\<close> nor
  \<open>|\<close>, and otherwise as the quoted kind name followed by eight times the itemsize.
  A native 8-byte float renders long as \<open>'float64'\<close> and short as \<open>'<f8'\<close> on a
  little-endian platform (\<open>'>f8'\<close> on a big-endian one).
\<close>

theorem numeric_construction_repr:
  "(fields d = None \<and> subdtype d = None \<and> cls (type d) = Number_subclass
      \<and> kind d \<in> {CHR ''u'', CHR ''i'', CHR ''f'', CHR ''c''} \<longrightarrow>
      construction_repr p d include_align short =
        (if short \<or> byteorder d \<notin> {CHR ''='', CHR ''|''}
         then Inr (sq (byte_order_str p d @ [kind d] @ fmt_d (itemsize d)))
         else Inr (sq ((if kind d = CHR ''u'' then ''uint''
                        else if kind d = CHR ''i'' then ''int''
                        else if kind d = CHR ''f'' then ''float''
                        else ''complex'') @ fmt_d (itemsize d * 8)))))
   \<and> construction_repr LittleEndian float64 include_align False = Inr (sq ''float64'')
   \<and> construction_repr LittleEndian float64 include_align True = Inr (sq ''<f8'')
   \<and> construction_repr BigEndian float64 include_align True = Inr (sq ''>f8'')"
proof -
  have ex1: "construction_repr LittleEndian float64 include_align False = Inr (sq ''float64'')"
    by code_simp
  have ex2: "construction_repr LittleEndian float64 include_align True = Inr (sq ''<f8'')"
    by code_simp
  have ex3: "construction_repr BigEndian float64 include_align True = Inr (sq ''>f8'')"
    by code_simp
  have gen: "construction_repr p d include_align short =
        (if short \<or> byteorder d \<notin> {CHR ''='', CHR ''|''}
         then Inr (sq (byte_order_str p d @ [kind d] @ fmt_d (itemsize d)))
         else Inr (sq ((if kind d = CHR ''u'' then ''uint''
                        else if kind d = CHR ''i'' then ''int''
                        else if kind d = CHR ''f'' then ''float''
                        else ''complex'') @ fmt_d (itemsize d * 8))))"
    if "fields d = None" "subdtype d = None" "cls (type d) = Number_subclass"
      "kind d \<in> {CHR ''u'', CHR ''i'', CHR ''f'', CHR ''c''}"
    using that
    by (auto simp: construction_repr.simps [of p d] issubclass_number_def kindstrs_def
        mult.commute)
  from ex1 ex2 ex3 gen show ?thesis by blast
qed

theorem numeric_construction_repr_witness:
  "fields float64_big = None \<and> subdtype float64_big = None
   \<and> cls (type float64_big) = Number_subclass \<and> kind float64_big = CHR ''f''
   \<and> construction_repr LittleEndian float64_big True False = Inr (sq ''>f8'')
   \<and> construction_repr LittleEndian int32 True False = Inr (sq ''int32'')"
proof -
  have a: "byte_order_str LittleEndian float64_big = ''>''" by code_simp
  have b: "fmt_d 8 = ''8''" "fmt_d 32 = ''32''" by code_simp+
  show ?thesis
    using numeric_construction_repr [of float64_big LittleEndian True False]
      numeric_construction_repr [of int32 LittleEndian True False]
    by (simp add: float64_big_def int32_def a [unfolded float64_big_def] b)
qed

section \<open>Choice between list form and dict form\<close>

lemma struct_dict_str_prefix:
  "struct_dict_str p d flag = Inr s \<Longrightarrow> take 10 s = ''{'names':[''"
  by (auto simp: struct_dict_str.simps [of p d] Let_def
      split: option.splits prod.splits sum.splits if_splits)

lemma struct_list_str_prefix:
  "struct_list_str p d = Inr s \<Longrightarrow> take 1 s = ''[''"
  by (auto simp: struct_list_str.simps [of p d] split: option.splits sum.splits)

lemma struct_str_unfold:
  "fields d = Some flds \<Longrightarrow>
     struct_str p d include_align =
       (case (if (include_align \<and> isalignedstruct d) \<or> is_packed d = Inr False
              then struct_dict_str p d include_align
              else struct_list_str p d) of
          Inl e \<Rightarrow> Inl e
        | Inr sub \<Rightarrow>
            Inr (if cls (type d) \<noteq> Np_void
                 then ''('' @ module (type d) @ ''.'' @ tname (type d) @ '', '' @ sub @ '')''
                 else sub))"
  by (auto simp: struct_str.simps [of p d] is_packed_def split: sum.splits)

lemma aligned_example_renderings:
  "struct_dict_str LittleEndian (struct_of np_void three_int32 12 True) True =
     Inr (''{'names':['a','b','c'], 'formats':['<i4','<i4','<i4'], 'offsets':[0,4,8], ''
          @ [CHR 0x27] @ ''itemsize':12, 'aligned':True}'')"
  "struct_list_str LittleEndian (struct_of np_void three_int32 12 True) =
     Inr ''[('a', '<i4'), ('b', '<i4'), ('c', '<i4')]''"
  "is_packed (struct_of np_void three_int32 12 True) = Inr True"
  by code_simp+

text \<open>
  C4. For a structured descriptor, \<open>_struct_str\<close> returns the dict form (a string
  opening with \<open>{'names':[\<close>) when alignment is to be included and the aligned flag is
  set, or when the layout is not packed, and the list form (opening with \<open>[\<close>)
  otherwise; either is wrapped with the type's name when the type is not \<open>np.void\<close>,
  and an error of the serializer is passed on.
\<close>

theorem struct_str_form_choice:
  "fields d = Some flds \<Longrightarrow>
     struct_str p d include_align =
       (case (if (include_align \<and> isalignedstruct d) \<or> is_packed d = Inr False
              then struct_dict_str p d include_align
              else struct_list_str p d) of
          Inl e \<Rightarrow> Inl e
        | Inr sub \<Rightarrow>
            Inr (if cls (type d) \<noteq> Np_void
                 then ''('' @ module (type d) @ ''.'' @ tname (type d) @ '', '' @ sub @ '')''
                 else sub))
     \<and> (\<forall>s. struct_dict_str p d include_align = Inr s \<longrightarrow> take 10 s = ''{'names':['')
     \<and> (\<forall>s. struct_list_str p d = Inr s \<longrightarrow> take 1 s = ''['')"
  using struct_str_unfold [of d flds p include_align]
    struct_dict_str_prefix [of p d include_align] struct_list_str_prefix [of p d]
  by blast

theorem struct_str_form_choice_witness:
  "fields (struct_of np_void three_int32 12 True) = Some three_int32
   \<and> struct_str LittleEndian (struct_of np_void three_int32 12 True) True =
     Inr (''{'names':['a','b','c'], 'formats':['<i4','<i4','<i4'], 'offsets':[0,4,8], ''
          @ [CHR 0x27] @ ''itemsize':12, 'aligned':True}'')
   \<and> struct_str LittleEndian (struct_of np_void three_int32 12 True) False =
       Inr ''[('a', '<i4'), ('b', '<i4'), ('c', '<i4')]''"
proof -
  have h: "fields (struct_of np_void three_int32 12 True) = Some three_int32"
    by (simp add: struct_of_def)
  have t: "cls (type (struct_of np_void three_int32 12 True)) = Np_void"
    "isalignedstruct (struct_of np_void three_int32 12 True)"
    by (simp_all add: struct_of_def np_void_def)
  show ?thesis
    using struct_str_form_choice [OF h, of LittleEndian True]
      struct_str_form_choice [OF h, of LittleEndian False]
    by (simp add: h t aligned_example_renderings)
qed

section \<open>The canonical repr of a structured descriptor\<close>

lemma struct_repr_unfold:
  "struct_repr p d =
     (case struct_str p d False of
        Inl e \<Rightarrow> Inl e
      | Inr sub \<Rightarrow>
          Inr (''dtype('' @ sub @ (if isalignedstruct d then '', align=True'' else []) @ '')''))"
  by (simp add: struct_repr_def Let_def split: sum.splits)

text \<open>
  C2, as the specification states it, fails: \<open>_struct_repr\<close> calls \<open>_struct_str\<close>
  with \<open>include_align=False\<close>. A packed structured descriptor with the aligned flag
  set is rendered in list form followed by \<open>, align=True\<close>; the builder called with
  \<open>include_align=True\<close> gives the dict form with \<open>'aligned':True\<close>, which the repr
  does not contain.
\<close>

theorem struct_repr_include_align_counterexample:
  "fields (struct_of np_void three_int32 12 True) \<noteq> None
   \<and> isalignedstruct (struct_of np_void three_int32 12 True)
   \<and> is_packed (struct_of np_void three_int32 12 True) = Inr True
   \<and> construction_repr LittleEndian (struct_of np_void three_int32 12 True) True False =
       Inr (''{'names':['a','b','c'], 'formats':['<i4','<i4','<i4'], 'offsets':[0,4,8], ''
            @ [CHR 0x27] @ ''itemsize':12, 'aligned':True}'')
   \<and> dtype_repr LittleEndian (struct_of np_void three_int32 12 True) =
       Inr ''dtype([('a', '<i4'), ('b', '<i4'), ('c', '<i4')], align=True)''
   \<and> dtype_repr LittleEndian (struct_of np_void three_int32 12 True) \<noteq>
       Inr (''dtype({'names':['a','b','c'], 'formats':['<i4','<i4','<i4'], 'offsets':[0,4,8], ''
            @ [CHR 0x27] @ ''itemsize':12, 'aligned':True}, align=True)'')"
  by code_simp

text \<open>
  C2, amended. For a structured descriptor the canonical repr is \<open>dtype(\<close>, the output
  of \<open>_struct_str\<close> with \<open>include_align=False\<close>, then \<open>, align=True\<close> exactly when
  the aligned flag is set, then \<open>)\<close>. A packed layout is therefore rendered in list
  form whether or not the flag is set, and a layout that is not packed in dict form
  without the \<open>'aligned'\<close> entry.
\<close>

theorem struct_repr_without_include_align:
  "fields d = Some flds \<Longrightarrow>
     dtype_repr p d =
       (case struct_str p d False of
          Inl e \<Rightarrow> Inl e
        | Inr sub \<Rightarrow>
            Inr (''dtype('' @ sub @ (if isalignedstruct d then '', align=True'' else [])
                 @ '')''))
     \<and> struct_str p d False =
         (case (if is_packed d = Inr True then struct_list_str p d
                else struct_dict_str p d False) of
            Inl e \<Rightarrow> Inl e
          | Inr sub \<Rightarrow>
              Inr (if cls (type d) \<noteq> Np_void
                   then ''('' @ module (type d) @ ''.'' @ tname (type d) @ '', '' @ sub @ '')''
                   else sub))"
proof -
  assume f: "fields d = Some flds"
  then have "is_packed d = Inr True \<or> is_packed d = Inr False"
    by (simp add: is_packed_def)
  then show ?thesis
    using f struct_str_unfold [OF f, of p False]
    by (auto simp: dtype_repr_def struct_repr_unfold)
qed

theorem struct_repr_without_include_align_witness:
  "fields (struct_of np_void three_int32 12 True) = Some three_int32
   \<and> dtype_repr LittleEndian (struct_of np_void three_int32 12 True) =
       Inr ''dtype([('a', '<i4'), ('b', '<i4'), ('c', '<i4')], align=True)''"
proof -
  have h: "fields (struct_of np_void three_int32 12 True) = Some three_int32"
    by (simp add: struct_of_def)
  have t: "cls (type (struct_of np_void three_int32 12 True)) = Np_void"
    "isalignedstruct (struct_of np_void three_int32 12 True)"
    by (simp_all add: struct_of_def np_void_def)
  show ?thesis
    using struct_repr_without_include_align [OF h, of LittleEndian]
    by (simp add: h t aligned_example_renderings)
qed

section \<open>Type wrapping of structured descriptors\<close>

lemma titled_record_renderings:
  "struct_list_str LittleEndian titled_record = Inr ''[(('t1', 'f1'), '<f8')]''"
  "is_packed titled_record = Inr True"
  by code_simp+

text \<open>
  C10. The wrapping \<open>(<module>.<name>, <fields>)\<close> of a structured descriptor whose
  type is not \<open>np.void\<close> is made by \<open>_struct_str\<close>, which both entry points call: it
  is in the display string as well as in the canonical repr.
\<close>

theorem type_wrapping_in_str_and_repr:
  "fields d = Some flds \<Longrightarrow> cls (type d) \<noteq> Np_void \<Longrightarrow>
     dtype_str p d =
       (case (if isalignedstruct d \<or> is_packed d = Inr False
              then struct_dict_str p d True else struct_list_str p d) of
          Inl e \<Rightarrow> Inl e
        | Inr sub \<Rightarrow>
            Inr (''('' @ module (type d) @ ''.'' @ tname (type d) @ '', '' @ sub @ '')''))
     \<and> dtype_repr p d =
       (case (if is_packed d = Inr False
              then struct_dict_str p d False else struct_list_str p d) of
          Inl e \<Rightarrow> Inl e
        | Inr sub \<Rightarrow>
            Inr (''dtype('' @ ''('' @ module (type d) @ ''.'' @ tname (type d) @ '', ''
                 @ sub @ '')'' @ (if isalignedstruct d then '', align=True'' else [])
                 @ '')''))"
proof -
  assume f: "fields d = Some flds" and t: "cls (type d) \<noteq> Np_void"
  show ?thesis
    using f t struct_str_unfold [OF f, of p True] struct_str_unfold [OF f, of p False]
    by (auto simp: dtype_str_def dtype_repr_def struct_repr_unfold split: sum.splits)
qed

theorem type_wrapping_in_str_and_repr_witness:
  "fields titled_record = Some [(''f1'', float64, 0, Some ''t1'')]
   \<and> cls (type titled_record) \<noteq> Np_void
   \<and> dtype_str LittleEndian titled_record = Inr ''(numpy.record, [(('t1', 'f1'), '<f8')])''
   \<and> dtype_repr LittleEndian titled_record =
       Inr ''dtype((numpy.record, [(('t1', 'f1'), '<f8')]))''"
proof -
  have h: "fields titled_record = Some [(''f1'', float64, 0, Some ''t1'')]"
    by (simp add: titled_record_def struct_of_def)
  have t: "cls (type titled_record) \<noteq> Np_void" "\<not> isalignedstruct titled_record"
    "module (type titled_record) = ''numpy''" "tname (type titled_record) = ''record''"
    by (simp_all add: titled_record_def struct_of_def np_record_def)
  show ?thesis
    using type_wrapping_in_str_and_repr [OF h t(1), of LittleEndian]
    by (simp add: h t titled_record_renderings)
qed

section \<open>Dict form\<close>

lemma unpack_loop_eq:
  "unpack_loop flds (a, b, c) =
     (a @ field_dtypes flds, b @ field_offsets flds, c @ field_titles flds)"
  by (induction flds "(a, b, c)" arbitrary: a b c rule: unpack_loop.induct)
    (auto simp: unpack_field_def field_dtypes_def field_offsets_def field_titles_def)

lemma mapM_Inr_iff:
  "mapM f xs = Inr ys \<longleftrightarrow>
     length ys = length xs \<and> (\<forall>i<length xs. f (xs ! i) = Inr (ys ! i))"
proof (induction xs arbitrary: ys)
  case Nil
  then show ?case by auto
next
  case (Cons x xs)
  show ?case
  proof (cases ys)
    case Nil
    then show ?thesis by (auto split: sum.splits)
  next
    case (Cons y ys')
    show ?thesis
      using Cons.IH [of ys']
      by (cases "f x"; cases "mapM f xs")
        (auto simp: Cons All_less_Suc2 list_eq_iff_nth_eq)
  qed
qed

lemma mapM_Inl: "mapM f xs = Inl e \<Longrightarrow> \<exists>x\<in>set xs. f x = Inl e"
  by (induction xs) (auto split: sum.splits)

lemma mapM_total:
  "(\<forall>i<length xs. \<exists>y. f (xs ! i) = Inr y) \<Longrightarrow> \<exists>ys. mapM f xs = Inr ys"
proof -
  assume a: "\<forall>i<length xs. \<exists>y. f (xs ! i) = Inr y"
  show ?thesis
  proof (cases "mapM f xs")
    case (Inl e)
    then obtain x where "x \<in> set xs" "f x = Inl e" using mapM_Inl by fastforce
    then show ?thesis using a by (auto simp: in_set_conv_nth)
  next
    case (Inr ys)
    then show ?thesis by blast
  qed
qed

lemma struct_dict_str_unfold:
  "fields d = Some flds \<Longrightarrow>
   struct_dict_str p d flag =
     (case mapM (\<lambda>fld_dtype. construction_repr p fld_dtype False True) (field_dtypes flds) of
        Inl e \<Rightarrow> Inl e
      | Inr formats \<Rightarrow>
          Inr (''{'names':['' @ join '','' (map repr (map fst flds))
            @ ''], 'formats':['' @ join '','' formats
            @ ''], 'offsets':['' @ join '','' (map fmt_d (field_offsets flds))
            @ (if \<exists>t\<in>set (field_titles flds). t \<noteq> None
               then ''], 'titles':['' @ join '','' (map repr_opt (field_titles flds))
               else [])
            @ ''], 'itemsize':'' @ fmt_d (itemsize d)
            @ (if flag \<and> isalignedstruct d then '', 'aligned':True}'' else ''}'')))"
  by (auto simp: struct_dict_str.simps [of p d] unpack_loop_eq Let_def split: sum.splits)

text \<open>
  C8, as the specification states it, fails: the titles are emitted when some field has
  a title other than \<open>None\<close>, and the empty string is such a title. For
  \<open>np.dtype([(('', 'a'), 'i4')])\<close> no field has a non-empty title, and the dict form
  has the entry \<open>'titles':['']\<close>.
\<close>

theorem empty_title_counterexample:
  "fields empty_title = Some [(''a'', int32, 0, Some [])]
   \<and> field_titles [(''a'', int32, 0, Some [])] = [Some []]
   \<and> \<not> (\<exists>t\<in>set (field_titles [(''a'', int32, 0, Some [])]). t \<noteq> None \<and> t \<noteq> Some [])
   \<and> struct_dict_str LittleEndian empty_title False =
       Inr (''{'names':['a'], 'formats':['<i4'], 'offsets':[0], 'titles':[''
            @ [CHR 0x27, CHR 0x27] @ ''], 'itemsize':4}'')"
  by code_simp

text \<open>
  C8, amended. For a structured descriptor on which \<open>_struct_dict_str\<close> returns, the
  result is the names, the formats, the offsets and, exactly when some field has a
  title other than \<open>None\<close> (the empty string included), the titles, each list in
  declaration order with one entry per field, then the itemsize, then
  \<open>'aligned':True\<close> exactly when the flag argument and the aligned flag are both set.
  The entry of field \<open>i\<close> in the formats is \<open>_construction_repr\<close> of that field's
  descriptor in short form. The function returns whenever every field's descriptor
  renders.
\<close>

theorem struct_dict_str_parallel:
  "fields d = Some flds \<Longrightarrow>
     (struct_dict_str p d flag = Inr s \<longrightarrow>
        (\<exists>formats. length formats = length flds
           \<and> (\<forall>i<length flds.
                 construction_repr p (field_dtypes flds ! i) False True = Inr (formats ! i))
           \<and> s = ''{'names':['' @ join '','' (map repr (map fst flds))
               @ ''], 'formats':['' @ join '','' formats
               @ ''], 'offsets':['' @ join '','' (map fmt_d (field_offsets flds))
               @ (if \<exists>t\<in>set (field_titles flds). t \<noteq> None
                  then ''], 'titles':['' @ join '','' (map repr_opt (field_titles flds))
                  else [])
               @ ''], 'itemsize':'' @ fmt_d (itemsize d)
               @ (if flag \<and> isalignedstruct d then '', 'aligned':True}'' else ''}'')))
     \<and> ((\<forall>i<length flds. \<exists>f. construction_repr p (field_dtypes flds ! i) False True = Inr f)
          \<longrightarrow> (\<exists>s'. struct_dict_str p d flag = Inr s'))"
proof -
  assume f: "fields d = Some flds"
  have len: "length (field_dtypes flds) = length flds" by (simp add: field_dtypes_def)
  show ?thesis
  proof (intro conjI impI)
    assume r: "struct_dict_str p d flag = Inr s"
    then obtain formats where
      m: "mapM (\<lambda>fld_dtype. construction_repr p fld_dtype False True) (field_dtypes flds) = Inr formats"
      by (auto simp: struct_dict_str_unfold [OF f] split: sum.splits)
    from m have "length formats = length flds"
      and "\<forall>i<length flds. construction_repr p (field_dtypes flds ! i) False True = Inr (formats ! i)"
      by (simp_all add: mapM_Inr_iff len)
    moreover from r m have "s = ''{'names':['' @ join '','' (map repr (map fst flds))
               @ ''], 'formats':['' @ join '','' formats
               @ ''], 'offsets':['' @ join '','' (map fmt_d (field_offsets flds))
               @ (if \<exists>t\<in>set (field_titles flds). t \<noteq> None
                  then ''], 'titles':['' @ join '','' (map repr_opt (field_titles flds))
                  else [])
               @ ''], 'itemsize':'' @ fmt_d (itemsize d)
               @ (if flag \<and> isalignedstruct d then '', 'aligned':True}'' else ''}'')"
      by (simp add: struct_dict_str_unfold [OF f])
    ultimately show "\<exists>formats. length formats = length flds
           \<and> (\<forall>i<length flds.
                 construction_repr p (field_dtypes flds ! i) False True = Inr (formats ! i))
           \<and> s = ''{'names':['' @ join '','' (map repr (map fst flds))
               @ ''], 'formats':['' @ join '','' formats
               @ ''], 'offsets':['' @ join '','' (map fmt_d (field_offsets flds))
               @ (if \<exists>t\<in>set (field_titles flds). t \<noteq> None
                  then ''], 'titles':['' @ join '','' (map repr_opt (field_titles flds))
                  else [])
               @ ''], 'itemsize':'' @ fmt_d (itemsize d)
               @ (if flag \<and> isalignedstruct d then '', 'aligned':True}'' else ''}'')"
      by blast
  next
    assume "\<forall>i<length flds. \<exists>f. construction_repr p (field_dtypes flds ! i) False True = Inr f"
    then have "\<exists>ys. mapM (\<lambda>fld_dtype. construction_repr p fld_dtype False True) (field_dtypes flds) = Inr ys"
      using mapM_total [of "field_dtypes flds" "\<lambda>fld_dtype. construction_repr p fld_dtype False True"]
      by (simp add: len)
    then show "\<exists>s'. struct_dict_str p d flag = Inr s'"
      by (auto simp: struct_dict_str_unfold [OF f])
  qed
qed

theorem struct_dict_str_parallel_witness:
  "fields titled_pair = Some [(''f1'', float64, 0, Some ''t1''), (''b'', int32, 8, None)]
   \<and> struct_dict_str LittleEndian titled_pair True =
       Inr (''{'names':['f1','b'], 'formats':['<f8','<i4'], 'offsets':[0,8], ''
            @ [CHR 0x27] @ ''titles':['t1',None], 'itemsize':16, 'aligned':True}'')
   \<and> (\<exists>formats. length formats = 2
         \<and> construction_repr LittleEndian float64 False True = Inr (formats ! 0)
         \<and> construction_repr LittleEndian int32 False True = Inr (formats ! 1))"
proof -
  let ?flds = "[(''f1'', float64, 0, Some ''t1''), (''b'', int32, 8, None)]"
  let ?s = "''{'names':['f1','b'], 'formats':['<f8','<i4'], 'offsets':[0,8], ''
            @ [CHR 0x27] @ ''titles':['t1',None], 'itemsize':16, 'aligned':True}''"
  have h: "fields titled_pair = Some ?flds"
    by (simp add: titled_pair_def struct_of_def)
  have a: "struct_dict_str LittleEndian titled_pair True = Inr ?s"
    by code_simp
  have d: "field_dtypes ?flds ! 0 = float64" "field_dtypes ?flds ! 1 = int32"
    by (simp_all add: field_dtypes_def)
  note st = struct_dict_str_parallel [OF h, of LittleEndian True ?s, THEN conjunct1, THEN mp, OF a]
  from st have "\<exists>formats. length formats = 2
         \<and> construction_repr LittleEndian float64 False True = Inr (formats ! 0)
         \<and> construction_repr LittleEndian int32 False True = Inr (formats ! 1)"
  proof (elim exE conjE)
    fix formats
    assume l: "length formats = length ?flds"
      and n: "\<forall>i<length ?flds.
        construction_repr LittleEndian (field_dtypes ?flds ! i) False True = Inr (formats ! i)"
    from n have "construction_repr LittleEndian (field_dtypes ?flds ! 0) False True = Inr (formats ! 0)"
      by simp
    moreover from n have "construction_repr LittleEndian (field_dtypes ?flds ! 1) False True = Inr (formats ! 1)"
      by simp
    moreover from l have "length formats = 2" by simp
    ultimately show ?thesis unfolding d by blast
  qed
  with h a show ?thesis by (intro conjI)
qed

section \<open>Errors of the construction representation\<close>

text \<open>
  The code raises the unknown-kind error only for the descriptor it is called on (every
  nested call asks for the short form), and the unrecognized-type error exactly when a
  scalar descriptor reached through fields and subarray bases falls through all its
  tests; the choice between list form and dict form makes no difference.
\<close>

lemma struct_list_str_unfold:
  "fields d = Some flds \<Longrightarrow>
     struct_list_str p d =
       (case mapM (list_item p) flds of
          Inl e \<Rightarrow> Inl e
        | Inr items \<Rightarrow> Inr (''['' @ join '', '' items @ '']''))"
  by (simp add: struct_list_str.simps [of p d] list_item_def)

lemma list_item_error:
  "list_item p (nm, fd, off, t) = Inl e \<longleftrightarrow>
     (case subdtype fd of
        Some (base, shape) \<Rightarrow> construction_repr p base False True = Inl e
      | None \<Rightarrow> construction_repr p fd False True = Inl e)"
  by (auto simp: list_item_def unpack_field_def Let_def split: option.splits sum.splits)

lemma mapM_error_iff:
  assumes "\<And>x e. x \<in> set xs \<Longrightarrow> f x = Inl e \<longleftrightarrow> e = E \<and> bad x"
  shows "mapM f xs = Inl e \<longleftrightarrow> e = E \<and> (\<exists>x\<in>set xs. bad x)"
  using assms
proof (induction xs)
  case Nil
  then show ?case by simp
next
  case (Cons x xs)
  have ih: "mapM f xs = Inl e \<longleftrightarrow> e = E \<and> (\<exists>x\<in>set xs. bad x)"
    using Cons by simp
  have hd: "\<And>e. f x = Inl e \<longleftrightarrow> e = E \<and> bad x"
    using Cons.prems by simp
  show ?case
  proof (cases "f x")
    case (Inl e')
    with hd [of e'] show ?thesis by auto
  next
    case (Inr y)
    with hd [of E] have "\<not> bad x" by auto
    with Inr ih show ?thesis by (auto split: sum.splits)
  qed
qed

lemma scalar_error_iff:
  assumes "fields d = None" "subdtype d = None"
  shows "construction_repr p d ia short = Inl e \<longleftrightarrow>
     (e = UnknownKind (kind d) \<and> unknown_numeric_kind d short)
     \<or> (e = UnrecognizedTypeNumber \<and> falls_through d)"
  using assms
  by (cases "cls (type d)")
    (auto simp: construction_repr.simps [of p d] unknown_numeric_kind_def falls_through_def
      issubclass_number_def kindstrs_def Let_def split: option.splits if_splits)

lemma nested_error_iff:
  assumes ih: "\<And>p ia short e. construction_repr p x ia short = Inl e \<longleftrightarrow>
      (e = UnknownKind (kind x) \<and> unknown_numeric_kind x short)
      \<or> (e = UnrecognizedTypeNumber \<and> reaches_fall_through x)"
  shows "construction_repr p x False True = Inl e \<longleftrightarrow>
      e = UnrecognizedTypeNumber \<and> reaches_fall_through x"
  by (simp add: ih unknown_numeric_kind_def)

lemma struct_str_error:
  assumes "fields d = Some flds"
  shows "struct_str p d ia = Inl e \<longleftrightarrow>
     (if (ia \<and> isalignedstruct d) \<or> is_packed d = Inr False
      then struct_dict_str p d ia = Inl e else struct_list_str p d = Inl e)"
  by (simp add: struct_str_unfold [OF assms] split: sum.splits)

lemma struct_dict_str_error:
  assumes "fields d = Some flds"
  shows "struct_dict_str p d flag = Inl e \<longleftrightarrow>
     mapM (\<lambda>fld_dtype. construction_repr p fld_dtype False True) (field_dtypes flds) = Inl e"
  by (simp add: struct_dict_str_unfold [OF assms] split: sum.splits)

lemma struct_list_str_error:
  assumes "fields d = Some flds"
  shows "struct_list_str p d = Inl e \<longleftrightarrow> mapM (list_item p) flds = Inl e"
  by (simp add: struct_list_str_unfold [OF assms] split: sum.splits)

lemma construction_repr_raises_iff:
  "wellformed d \<Longrightarrow>
     construction_repr p d ia short = Inl e \<longleftrightarrow>
       (e = UnknownKind (kind d) \<and> unknown_numeric_kind d short)
       \<or> (e = UnrecognizedTypeNumber \<and> reaches_fall_through d)"
proof (induction d arbitrary: p ia short e rule: measure_induct_rule [where f = size])
  case (less d)
  note wf = less.prems
  show ?case
  proof (cases "fields d")
    case None
    note f = None
    show ?thesis
    proof (cases "subdtype d")
      case None
      with f have "reaches_fall_through d = falls_through d"
        by (simp add: reaches_fall_through.simps [of d])
      with scalar_error_iff [OF f None] show ?thesis by simp
    next
      case (Some bs)
      obtain base shape where bs: "bs = (base, shape)" by (cases bs) auto
      with Some have s: "subdtype d = Some (base, shape)" by simp
      from wf f s have wb: "wellformed base"
        by (simp add: wellformed.simps [of d])
      have sz: "size base < size d" using s by (rule size_base_lt)
      have r: "reaches_fall_through d = reaches_fall_through base"
        using f s by (simp add: reaches_fall_through.simps [of d])
      have nk: "\<not> unknown_numeric_kind d short"
        using s by (simp add: unknown_numeric_kind_def)
      have "construction_repr p d ia short = Inl e \<longleftrightarrow>
          construction_repr p base False True = Inl e"
        using f s
        by (simp add: construction_repr.simps [of p d] subarray_str.simps [of p d]
            split: sum.splits)
      also have "\<dots> \<longleftrightarrow> e = UnrecognizedTypeNumber \<and> reaches_fall_through base"
        by (rule nested_error_iff) (rule less.IH [OF sz wb])
      finally show ?thesis using r nk by simp
    qed
  next
    case (Some flds)
    note f = Some
    from wf f have ns: "subdtype d = None"
      and wfl: "list_all (\<lambda>(nm, fd, off, t). wellformed fd) flds"
      by (simp_all add: wellformed.simps [of d])
    have r: "reaches_fall_through d \<longleftrightarrow> (\<exists>x\<in>set flds. reaches_fall_through (fst (snd x)))"
      using f by (force simp: reaches_fall_through.simps [of d] list_ex_iff)
    have nk: "\<not> unknown_numeric_kind d short"
      using f by (simp add: unknown_numeric_kind_def)
    have fld: "construction_repr p' fd False True = Inl e' \<longleftrightarrow>
        e' = UnrecognizedTypeNumber \<and> reaches_fall_through fd"
      if "(nm, fd, off, t) \<in> set flds" for nm fd off t p' e'
    proof -
      from that wfl have w: "wellformed fd" by (auto simp: list_all_iff)
      from f that have sz: "size fd < size d" by (rule size_field_lt)
      show ?thesis by (rule nested_error_iff) (rule less.IH [OF sz w])
    qed
    have item: "list_item p x = Inl e' \<longleftrightarrow>
        e' = UnrecognizedTypeNumber \<and> reaches_fall_through (fst (snd x))"
      if x: "x \<in> set flds" for x e'
    proof -
      obtain nm fd off t where xe: "x = (nm, fd, off, t)" by (cases x) auto
      from x xe wfl have w: "wellformed fd" by (auto simp: list_all_iff)
      from f x xe have sz: "size fd < size d" by (auto intro: size_field_lt)
      show ?thesis
      proof (cases "subdtype fd")
        case None
        then show ?thesis
          using fld [of nm fd off t p e'] x xe by (simp add: list_item_error)
      next
        case (Some bs)
        obtain base shape where bs: "bs = (base, shape)" by (cases bs) auto
        with Some have s: "subdtype fd = Some (base, shape)" by simp
        from w s have nf: "fields fd = None"
          by (cases "fields fd") (auto simp: wellformed.simps [of fd])
        from w s nf have wb: "wellformed base" by (simp add: wellformed.simps [of fd])
        have "size base < size fd" using s by (rule size_base_lt)
        with sz have szb: "size base < size d" by simp
        have rb: "reaches_fall_through fd = reaches_fall_through base"
          using nf s by (simp add: reaches_fall_through.simps [of fd])
        have "construction_repr p base False True = Inl e' \<longleftrightarrow>
            e' = UnrecognizedTypeNumber \<and> reaches_fall_through base"
          by (rule nested_error_iff) (rule less.IH [OF szb wb])
        then show ?thesis using s rb xe by (simp add: list_item_error)
      qed
    qed
    have lst: "struct_list_str p d = Inl e \<longleftrightarrow>
        e = UnrecognizedTypeNumber \<and> reaches_fall_through d"
      unfolding struct_list_str_error [OF f] r
      by (rule mapM_error_iff) (rule item)
    have "mapM (\<lambda>fld_dtype. construction_repr p fld_dtype False True) (field_dtypes flds) = Inl e
        \<longleftrightarrow> e = UnrecognizedTypeNumber \<and> (\<exists>x\<in>set (field_dtypes flds). reaches_fall_through x)"
      by (rule mapM_error_iff) (auto simp: field_dtypes_def fld)
    moreover have "(\<exists>x\<in>set (field_dtypes flds). reaches_fall_through x) \<longleftrightarrow>
        (\<exists>x\<in>set flds. reaches_fall_through (fst (snd x)))"
      by (force simp: field_dtypes_def)
    ultimately have dct: "struct_dict_str p d flag = Inl e \<longleftrightarrow>
        e = UnrecognizedTypeNumber \<and> reaches_fall_through d" for flag
      unfolding struct_dict_str_error [OF f] r by simp
    have "construction_repr p d ia short = struct_str p d ia"
      using f by (simp add: construction_repr.simps [of p d])
    then show ?thesis
      using nk lst dct by (simp add: struct_str_error [OF f])
  qed
qed

text \<open>
  C6 fails on the code at a descriptor of a recognized kind. \<open>np.dtype((np.record, 'V8'))\<close>
  is raw void (kind \<open>V\<close>, 8 bytes, no fields, no subarray). Its type \<open>np.record\<close> is a
  subclass of \<open>np.void\<close> and not \<open>np.void\<close> itself, so the test
  \<open>dtype.type == np.void\<close> fails, no later test holds, and \<open>_construction_repr\<close>, and
  with it \<open>__repr__\<close>, raises the unrecognized-type error. \<open>__str__\<close>, which tests
  \<open>issubclass(dtype.type, np.flexible)\<close>, returns \<open>|V8\<close>, and the same descriptor with
  type \<open>np.void\<close> renders \<open>'V8'\<close>.
\<close>

theorem record_void_raises:
  "fields (record_void 1) = None \<and> subdtype (record_void 1) = None
   \<and> wellformed (record_void 1)
   \<and> kind (record_void 1) = CHR ''V'' \<and> itemsize (record_void 1) = 8
   \<and> construction_repr LittleEndian (record_void 1) True False = Inl UnrecognizedTypeNumber
   \<and> construction_repr LittleEndian (record_void 0) True False = Inl UnrecognizedTypeNumber
   \<and> construction_repr LittleEndian (record_void 1) True True = Inl UnrecognizedTypeNumber
   \<and> dtype_repr LittleEndian (record_void 1) = Inl UnrecognizedTypeNumber
   \<and> dtype_str LittleEndian (record_void 1) = Inr ''|V8''
   \<and> construction_repr LittleEndian void8 True False = Inr (sq ''V8'')"
  by code_simp

section \<open>Nested alignment flags\<close>

text \<open>
  Every nested call of \<open>_construction_repr\<close> leaves \<open>include_align\<close> at its default
  \<open>False\<close>, and \<open>_struct_repr\<close> adds \<open>, align=True\<close> for the outermost descriptor
  only. The aligned flag of a structured descriptor used as a field is therefore not
  rendered: two descriptors that differ in nothing else have the same canonical repr,
  and no function from strings to descriptors returns both.
\<close>

lemma nested_alignment_not_rendered:
  "outer_struct True \<noteq> outer_struct False
   \<and> wellformed (outer_struct True) \<and> wellformed (outer_struct False)
   \<and> dtype_repr LittleEndian (outer_struct True) = Inr ''dtype([('a', [('x', '<i4')])])''
   \<and> dtype_repr LittleEndian (outer_struct False) = Inr ''dtype([('a', [('x', '<i4')])])''"
proof -
  have "outer_struct True \<noteq> outer_struct False"
    by (simp add: outer_struct_def inner_struct_def struct_of_def)
  moreover have "wellformed (outer_struct True)" "wellformed (outer_struct False)"
    by code_simp+
  moreover have "dtype_repr LittleEndian (outer_struct True) = Inr ''dtype([('a', [('x', '<i4')])])''"
    by code_simp
  moreover have "dtype_repr LittleEndian (outer_struct False) = Inr ''dtype([('a', [('x', '<i4')])])''"
    by code_simp
  ultimately show ?thesis by simp
qed

lemma no_function_restores_nested_alignment:
  "\<not> (\<exists>construct. \<forall>d s. wellformed d \<longrightarrow> dtype_repr LittleEndian d = Inr s \<longrightarrow> construct s = d)"
proof
  assume "\<exists>construct. \<forall>d s. wellformed d \<longrightarrow> dtype_repr LittleEndian d = Inr s \<longrightarrow> construct s = d"
  then obtain construct where
    c: "\<And>d s. wellformed d \<Longrightarrow> dtype_repr LittleEndian d = Inr s \<Longrightarrow> construct s = d"
    by blast
  from nested_alignment_not_rendered
  have "construct ''dtype([('a', [('x', '<i4')])])'' = outer_struct True"
    and "construct ''dtype([('a', [('x', '<i4')])])'' = outer_struct False"
    by (auto intro: c)
  with nested_alignment_not_rendered show False by simp
qed

section \<open>Determinism of the canonical repr\<close>

lemma frame_refl: "frame k h h"
  by (simp add: frame_def)

lemma frame_trans:
  "frame k h h1 \<Longrightarrow> frame k' h1 h2 \<Longrightarrow> k \<le> k' \<Longrightarrow> frame k h h2"
  by (auto simp: frame_def)

lemma frame_step:
  "frame k h h1 \<Longrightarrow> frame (next_addr h1) h1 h2 \<Longrightarrow> k \<le> next_addr h \<Longrightarrow> frame k h h2"
  by (auto simp: frame_def)

lemma refinesD:
  "refines m v \<Longrightarrow> \<exists>h'. m h = (Some v, h') \<and> frame (next_addr h) h h'"
  by (simp add: refines_def)

lemma mapM_h_refines:
  assumes "\<And>x. x \<in> set xs \<Longrightarrow> refines (f x) (g x)"
  shows "refines (mapM_h f xs) (mapM g xs)"
  using assms
proof (induction xs)
  case Nil
  then show ?case by (simp add: refines_def frame_refl)
next
  case (Cons x xs)
  have tl: "refines (mapM_h f xs) (mapM g xs)" using Cons by simp
  have hd: "refines (f x) (g x)" using Cons.prems by simp
  show ?case
    unfolding refines_def
  proof
    fix h
    from refinesD [OF hd, of h] obtain h1 where
      1: "f x h = (Some (g x), h1)" and f1: "frame (next_addr h) h h1" by blast
    show "\<exists>h'. mapM_h f (x # xs) h = (Some (mapM g (x # xs)), h') \<and> frame (next_addr h) h h'"
    proof (cases "g x")
      case (Inl e)
      with 1 f1 show ?thesis by simp
    next
      case (Inr y)
      from refinesD [OF tl, of h1] obtain h2 where
        2: "mapM_h f xs h1 = (Some (mapM g xs), h2)" and f2: "frame (next_addr h1) h1 h2"
        by blast
      have "frame (next_addr h) h h2" using f1 f2 by (rule frame_step) simp
      with 1 2 Inr show ?thesis by (cases "mapM g xs") simp_all
    qed
  qed
qed

lemma unpack_loop_h_effect:
  "unpack_loop_h flds fa oa ta h =
     Heap ((dtype_lists h)(fa := dtype_lists h fa @ field_dtypes flds))
          ((int_lists h)(oa := int_lists h oa @ field_offsets flds))
          ((title_lists h)(ta := title_lists h ta @ field_titles flds))
          (str_lists h) (next_addr h)"
proof (induction flds arbitrary: h)
  case Nil
  then show ?case by (simp add: field_dtypes_def field_offsets_def field_titles_def)
next
  case (Cons x xs)
  obtain nm fd off t where x: "x = (nm, fd, off, t)" by (cases x) auto
  show ?case
    unfolding x
    by (auto simp: Cons.IH unpack_field_def append_dtype_def append_int_def append_title_def
        field_dtypes_def field_offsets_def field_titles_def fun_eq_iff)
qed

lemma struct_dict_str_h_refines:
  assumes f: "fields d = Some flds"
    and nested: "\<And>x. x \<in> set (field_dtypes flds) \<Longrightarrow>
      refines (rec_call p x False True) (construction_repr p x False True)"
  shows "refines (struct_dict_str_h rec_call p d flag) (struct_dict_str p d flag)"
  unfolding refines_def
proof
  fix h
  define a where "a = next_addr h"
  define h4 where "h4 =
     Heap ((dtype_lists h)(a := field_dtypes flds))
          ((int_lists h)(Suc a := field_offsets flds))
          ((title_lists h)(Suc (Suc a) := field_titles flds))
          (str_lists h) (Suc (Suc (Suc a)))"
  have f4: "frame (next_addr h) h h4"
    by (simp add: frame_def h4_def a_def)
  have m: "refines (mapM_h (\<lambda>fld_dtype. rec_call p fld_dtype False True) (field_dtypes flds))
      (mapM (\<lambda>fld_dtype. construction_repr p fld_dtype False True) (field_dtypes flds))"
    by (rule mapM_h_refines) (rule nested)
  from refinesD [OF m, of h4] obtain h5 where
    5: "mapM_h (\<lambda>fld_dtype. rec_call p fld_dtype False True) (field_dtypes flds) h4 =
        (Some (mapM (\<lambda>fld_dtype. construction_repr p fld_dtype False True) (field_dtypes flds)), h5)"
    and f5: "frame (next_addr h4) h4 h5" by blast
  have keep: "int_lists h5 (Suc a) = field_offsets flds"
    "title_lists h5 (Suc (Suc a)) = field_titles flds"
    using f5 by (simp_all add: frame_def h4_def)
  have f05: "frame (next_addr h) h h5"
    using f4 f5 by (rule frame_step) simp
  have run: "struct_dict_str_h rec_call p d flag h =
    (case mapM_h (\<lambda>fld_dtype. rec_call p fld_dtype False True) (field_dtypes flds) h4 of
       (None, h') \<Rightarrow> (None, h')
     | (Some (Inl e), h') \<Rightarrow> (Some (Inl e), h')
     | (Some (Inr formats), h') \<Rightarrow>
         (Some (Inr (''{'names':['' @ join '','' (map repr (map fst flds))
            @ ''], 'formats':['' @ join '','' formats
            @ ''], 'offsets':['' @ join '','' (map fmt_d (int_lists h' (Suc a)))
            @ (if \<exists>t\<in>set (title_lists h' (Suc (Suc a))). t \<noteq> None
               then ''], 'titles':['' @ join '','' (map repr_opt (title_lists h' (Suc (Suc a))))
               else [])
            @ ''], 'itemsize':'' @ fmt_d (itemsize d)
            @ (if flag \<and> isalignedstruct d then '', 'aligned':True}'' else ''}''))), h'))"
    by (auto simp: struct_dict_str_h_def new_dtype_list_def new_int_list_def new_title_list_def
        f unpack_loop_h_effect h4_def a_def Let_def split: prod.splits option.splits sum.splits)
  show "\<exists>h'. struct_dict_str_h rec_call p d flag h = (Some (struct_dict_str p d flag), h')
      \<and> frame (next_addr h) h h'"
    using f05 keep
    by (auto simp: run 5 struct_dict_str_unfold [OF f] split: sum.splits)
qed

lemma list_item_h_run:
  assumes "item_ok rec_call p fd"
  shows "\<exists>h1. frame (next_addr h) h h1
    \<and> list_item_h rec_call p a (nm, fd, off, t) h =
        (case list_item p (nm, fd, off, t) of
           Inl e \<Rightarrow> (Some (Inl e), h1)
         | Inr it \<Rightarrow> (Some (Inr ()), append_str a it h1))"
proof (cases "subdtype fd")
  case None
  with assms have "refines (rec_call p fd False True) (construction_repr p fd False True)"
    by (simp add: item_ok_def)
  from refinesD [OF this, of h] obtain h1 where
    "rec_call p fd False True h = (Some (construction_repr p fd False True), h1)"
    "frame (next_addr h) h h1" by blast
  with None show ?thesis
    by (auto simp: list_item_h_def list_item_def unpack_field_def Let_def
        split: sum.splits option.splits)
next
  case (Some bs)
  obtain base shape where bs: "bs = (base, shape)" by (cases bs) auto
  with Some assms
  have "refines (rec_call p base False True) (construction_repr p base False True)"
    by (simp add: item_ok_def)
  from refinesD [OF this, of h] obtain h1 where
    "rec_call p base False True h = (Some (construction_repr p base False True), h1)"
    "frame (next_addr h) h h1" by blast
  with Some bs show ?thesis
    by (auto simp: list_item_h_def list_item_def unpack_field_def Let_def
        split: sum.splits option.splits)
qed

lemma list_loop_h_run:
  assumes "\<forall>x\<in>set flds. item_ok rec_call p (fst (snd x))"
    and "a < next_addr h"
  shows "\<exists>h'. for_h (list_item_h rec_call p a) flds h =
        ((case mapM (list_item p) flds of Inl e \<Rightarrow> Some (Inl e) | Inr its \<Rightarrow> Some (Inr ())), h')
      \<and> loop_frame a h h'
      \<and> (\<forall>its. mapM (list_item p) flds = Inr its \<longrightarrow> str_lists h' a = str_lists h a @ its)"
  using assms
proof (induction flds arbitrary: h)
  case Nil
  then show ?case by (simp add: loop_frame_def)
next
  case (Cons x xs)
  obtain nm fd off t where x: "x = (nm, fd, off, t)" by (cases x) auto
  have "item_ok rec_call p fd"
    using Cons.prems(1) x by simp
  from list_item_h_run [OF this, of h a nm off t] obtain h1 where
    f1: "frame (next_addr h) h h1"
    and run: "list_item_h rec_call p a x h =
        (case list_item p x of
           Inl e \<Rightarrow> (Some (Inl e), h1)
         | Inr it \<Rightarrow> (Some (Inr ()), append_str a it h1))"
    unfolding x by blast
  show ?case
  proof (cases "list_item p x")
    case (Inl e)
    with run f1 show ?thesis
      by (auto simp: loop_frame_def frame_def)
  next
    case (Inr it)
    define h2 where "h2 = append_str a it h1"
    have a2: "a < next_addr h2"
      using Cons.prems(2) f1 by (simp add: h2_def append_str_def frame_def)
    have s2: "str_lists h2 a = str_lists h a @ [it]"
      using Cons.prems(2) f1 by (simp add: h2_def append_str_def frame_def)
    have l2: "loop_frame a h h2"
      using f1 by (auto simp: loop_frame_def frame_def h2_def append_str_def)
    have "\<forall>x\<in>set xs. item_ok rec_call p (fst (snd x))"
      using Cons.prems(1) by simp
    from Cons.IH [OF this a2] obtain h' where
      r: "for_h (list_item_h rec_call p a) xs h2 =
        ((case mapM (list_item p) xs of Inl e \<Rightarrow> Some (Inl e) | Inr its \<Rightarrow> Some (Inr ())), h')"
      and l: "loop_frame a h2 h'"
      and s: "\<forall>its. mapM (list_item p) xs = Inr its \<longrightarrow> str_lists h' a = str_lists h2 a @ its"
      by blast
    have l': "loop_frame a h h'"
      using l2 l by (auto simp: loop_frame_def)
    have "for_h (list_item_h rec_call p a) (x # xs) h = for_h (list_item_h rec_call p a) xs h2"
      using run Inr by (simp add: h2_def)
    with r l' s s2 Inr show ?thesis
      by (auto split: sum.splits)
  qed
qed

lemma struct_list_str_h_refines:
  assumes f: "fields d = Some flds"
    and nested: "\<forall>x\<in>set flds. item_ok rec_call p (fst (snd x))"
  shows "refines (struct_list_str_h rec_call p d) (struct_list_str p d)"
  unfolding refines_def
proof
  fix h
  define a where "a = next_addr h"
  define h1 where "h1 =
    Heap (dtype_lists h) (int_lists h) (title_lists h) ((str_lists h)(a := [])) (Suc a)"
  have n: "new_str_list h = (a, h1)" by (simp add: new_str_list_def a_def h1_def)
  have "a < next_addr h1" by (simp add: h1_def)
  from list_loop_h_run [OF nested this] obtain h' where
    r: "for_h (list_item_h rec_call p a) flds h1 =
        ((case mapM (list_item p) flds of Inl e \<Rightarrow> Some (Inl e) | Inr its \<Rightarrow> Some (Inr ())), h')"
    and l: "loop_frame a h1 h'"
    and s: "\<forall>its. mapM (list_item p) flds = Inr its \<longrightarrow> str_lists h' a = str_lists h1 a @ its"
    by blast
  have fr: "frame (next_addr h) h h'"
    using l by (auto simp: loop_frame_def frame_def h1_def a_def)
  have "struct_list_str_h rec_call p d h = (Some (struct_list_str p d), h')"
    using r s
    by (auto simp: struct_list_str_h_def n f struct_list_str_unfold [OF f] h1_def
        split: sum.splits)
  with fr show "\<exists>h'. struct_list_str_h rec_call p d h = (Some (struct_list_str p d), h')
      \<and> frame (next_addr h) h h'" by blast
qed

lemma struct_str_h_refines:
  assumes f: "fields d = Some flds"
    and l: "refines (struct_list_str_h rec_call p d) (struct_list_str p d)"
    and c: "\<And>flag. refines (struct_dict_str_h rec_call p d flag) (struct_dict_str p d flag)"
  shows "refines (struct_str_h rec_call p d include_align) (struct_str p d include_align)"
  unfolding refines_def
proof
  fix h
  from refinesD [OF l, of h] obtain h1 where
    1: "struct_list_str_h rec_call p d h = (Some (struct_list_str p d), h1)"
    "frame (next_addr h) h h1" by blast
  from refinesD [OF c, of include_align h] obtain h2 where
    2: "struct_dict_str_h rec_call p d include_align h =
        (Some (struct_dict_str p d include_align), h2)"
    "frame (next_addr h) h h2" by blast
  from 1 2 show "\<exists>h'. struct_str_h rec_call p d include_align h =
      (Some (struct_str p d include_align), h') \<and> frame (next_addr h) h h'"
    by (auto simp: struct_str_h_def struct_str.simps [of p d] is_packed_def f
        split: sum.splits)
qed

lemma subarray_str_h_refines:
  assumes s: "subdtype d = Some (base, shape)"
    and b: "refines (rec_call p base False True) (construction_repr p base False True)"
  shows "refines (subarray_str_h rec_call p d) (subarray_str p d)"
  unfolding refines_def
proof
  fix h
  from refinesD [OF b, of h] obtain h1 where
    "rec_call p base False True h = (Some (construction_repr p base False True), h1)"
    "frame (next_addr h) h h1" by blast
  then show "\<exists>h'. subarray_str_h rec_call p d h = (Some (subarray_str p d), h')
      \<and> frame (next_addr h) h h'"
    by (auto simp: subarray_str_h_def subarray_str.simps [of p d] s split: sum.splits)
qed

lemma struct_str_h_nested:
  assumes f: "fields d = Some flds"
    and ih: "\<And>x ia sh. size x < size d \<Longrightarrow>
      refines (rec_call p x ia sh) (construction_repr p x ia sh)"
  shows "refines (struct_str_h rec_call p d include_align) (struct_str p d include_align)"
proof -
  have fld: "refines (rec_call p x False True) (construction_repr p x False True)"
    if "x \<in> set (field_dtypes flds)" for x
  proof -
    from that obtain nm off t where "(nm, x, off, t) \<in> set flds"
      by (auto simp: field_dtypes_def)
    with f have "size x < size d" by (rule size_field_lt)
    then show ?thesis by (rule ih)
  qed
  have item: "\<forall>x\<in>set flds. item_ok rec_call p (fst (snd x))"
  proof
    fix x assume x: "x \<in> set flds"
    obtain nm fd off t where xe: "x = (nm, fd, off, t)" by (cases x) auto
    from f x xe have sz: "size fd < size d" by (auto intro: size_field_lt)
    show "item_ok rec_call p (fst (snd x))"
    proof (cases "subdtype fd")
      case None
      with sz show ?thesis by (simp add: xe item_ok_def ih)
    next
      case (Some bs)
      obtain base shape where "bs = (base, shape)" by (cases bs) auto
      with Some have s: "subdtype fd = Some (base, shape)" by simp
      from size_base_lt [OF s] sz have "size base < size d" by simp
      with s show ?thesis by (simp add: xe item_ok_def ih)
    qed
  qed
  show ?thesis
    using f
  proof (rule struct_str_h_refines)
    show "refines (struct_list_str_h rec_call p d) (struct_list_str p d)"
      using f item by (rule struct_list_str_h_refines)
    show "refines (struct_dict_str_h rec_call p d flag) (struct_dict_str p d flag)" for flag
      using f fld by (rule struct_dict_str_h_refines)
  qed
qed

lemma construction_repr_h_refines:
  "size d \<le> n \<Longrightarrow>
     refines (construction_repr_h n p d include_align short)
       (construction_repr p d include_align short)"
proof (induction d arbitrary: n p include_align short rule: measure_induct_rule [where f = size])
  case (less d)
  have "0 < size d" by (cases d) simp
  with less.prems obtain m where n: "n = Suc m" by (cases n) auto
  have ih: "refines (construction_repr_h m p' x ia sh) (construction_repr p' x ia sh)"
    if "size x < size d" for x p' ia sh
    using less.IH [OF that, of m] that less.prems n by simp
  show ?case
  proof (cases "fields d")
    case None
    note f = None
    show ?thesis
    proof (cases "subdtype d")
      case None
      with f show ?thesis
        by (simp add: n construction_repr_step_def refines_def frame_refl)
    next
      case (Some bs)
      obtain base shape where "bs = (base, shape)" by (cases bs) auto
      with Some have s: "subdtype d = Some (base, shape)" by simp
      have "refines (subarray_str_h (construction_repr_h m) p d) (subarray_str p d)"
        using s by (rule subarray_str_h_refines) (rule ih, rule size_base_lt [OF s])
      with f s show ?thesis
        by (simp add: n construction_repr_step_def construction_repr.simps [of p d]
            refines_def)
    qed
  next
    case (Some flds)
    have "refines (struct_str_h (construction_repr_h m) p d include_align)
        (struct_str p d include_align)"
      using Some by (rule struct_str_h_nested) (rule ih)
    with Some show ?thesis
      by (simp add: n construction_repr_step_def construction_repr.simps [of p d]
          refines_def)
  qed
qed

lemma dtype_repr_h_refines:
  assumes "size d \<le> n"
  shows "refines (dtype_repr_h n p d) (dtype_repr p d)"
proof (cases "fields d")
  case None
  have c: "refines (construction_repr_h n p d True False) (construction_repr p d True False)"
    using assms by (rule construction_repr_h_refines)
  show ?thesis
    unfolding refines_def
  proof
    fix h
    from refinesD [OF c, of h] obtain h1 where
      "construction_repr_h n p d True False h = (Some (construction_repr p d True False), h1)"
      "frame (next_addr h) h h1" by blast
    with None show "\<exists>h'. dtype_repr_h n p d h = (Some (dtype_repr p d), h')
        \<and> frame (next_addr h) h h'"
      by (auto simp: dtype_repr_h_def dtype_repr_def split: sum.splits)
  qed
next
  case (Some flds)
  have s: "refines (struct_str_h (construction_repr_h n) p d False) (struct_str p d False)"
    using Some
  proof (rule struct_str_h_nested)
    fix x :: dtype and ia sh
    assume "size x < size d"
    with assms have "size x \<le> n" by simp
    then show "refines (construction_repr_h n p x ia sh) (construction_repr p x ia sh)"
      by (rule construction_repr_h_refines)
  qed
  show ?thesis
    unfolding refines_def
  proof
    fix h
    from refinesD [OF s, of h] obtain h1 where
      "struct_str_h (construction_repr_h n) p d False h = (Some (struct_str p d False), h1)"
      "frame (next_addr h) h h1" by blast
    with Some show "\<exists>h'. dtype_repr_h n p d h = (Some (dtype_repr p d), h')
        \<and> frame (next_addr h) h h'"
      by (auto simp: dtype_repr_h_def dtype_repr_def struct_repr_h_def struct_repr_def
          Let_def split: sum.splits)
  qed
qed

text \<open>
  C9. With fuel for the nesting of the descriptor, \<open>__repr__\<close> on the heap returns from
  every heap, and a second call, run in the heap that the first call has left, returns
  the same string or the same error: the result of \<open>dtype_repr\<close>, which depends on the
  descriptor (and the platform) alone. Neither call changes a list that existed before
  it.
\<close>

theorem dtype_repr_h_twice:
  "size d \<le> n \<Longrightarrow>
     (case dtype_repr_h n p d h of (first, h1) \<Rightarrow>
        case dtype_repr_h n p d h1 of (second, h2) \<Rightarrow>
          first = Some (dtype_repr p d) \<and> second = first
          \<and> frame (next_addr h) h h1 \<and> frame (next_addr h1) h1 h2)"
proof -
  assume n: "size d \<le> n"
  note r = dtype_repr_h_refines [OF n, of p]
  from refinesD [OF r, of h] obtain h1 where
    1: "dtype_repr_h n p d h = (Some (dtype_repr p d), h1)" "frame (next_addr h) h h1"
    by blast
  from refinesD [OF r, of h1] obtain h2 where
    2: "dtype_repr_h n p d h1 = (Some (dtype_repr p d), h2)" "frame (next_addr h1) h1 h2"
    by blast
  from 1 2 show ?thesis by simp
qed

theorem dtype_repr_h_twice_witness:
  "size titled_pair \<le> 20
   \<and> fst (dtype_repr_h 20 LittleEndian titled_pair empty_heap) =
       Some (Inr (''dtype({'names':['f1','b'], 'formats':['<f8','<i4'], 'offsets':[0,8], ''
                  @ [CHR 0x27] @ ''titles':['t1',None], 'itemsize':16}, align=True)''))
   \<and> next_addr (snd (dtype_repr_h 20 LittleEndian titled_pair empty_heap)) = 3
   \<and> fst (dtype_repr_h 20 LittleEndian titled_pair
            (snd (dtype_repr_h 20 LittleEndian titled_pair empty_heap))) =
       fst (dtype_repr_h 20 LittleEndian titled_pair empty_heap)"
proof -
  have sz: "size titled_pair \<le> 20"
    by (simp add: titled_pair_def struct_of_def float64_def int32_def)
  have a: "fst (dtype_repr_h 20 LittleEndian titled_pair empty_heap) =
       Some (Inr (''dtype({'names':['f1','b'], 'formats':['<f8','<i4'], 'offsets':[0,8], ''
                  @ [CHR 0x27] @ ''titles':['t1',None], 'itemsize':16}, align=True)''))"
    by code_simp
  have b: "next_addr (snd (dtype_repr_h 20 LittleEndian titled_pair empty_heap)) = 3"
    by code_simp
  have c: "fst (dtype_repr_h 20 LittleEndian titled_pair
            (snd (dtype_repr_h 20 LittleEndian titled_pair empty_heap))) =
       fst (dtype_repr_h 20 LittleEndian titled_pair empty_heap)"
    using dtype_repr_h_twice [OF sz, of LittleEndian empty_heap]
    by (simp split: prod.splits)
  from sz a b c show ?thesis by (intro conjI)
qed

end
